theory Spec2Isabelle
  imports Complex_Main "HOL-Library.Log_Nat"
begin

section \<open>Conventions of the embedding\<close>

text \<open>
  The development embeds \<^verbatim>\<open>packages/axelar-plugin/src/service.ts\<close>.

  \<^item> JavaScript numbers that hold USD amounts, token amounts and rates are reals;
    millisecond clock readings (\<^verbatim>\<open>Date.now()\<close>) and delays are integers. The
    arithmetic of a quote (lines 597-649), where a floor and a \<^verbatim>\<open>toFixed\<close> read the last
    digits of a product, is that of IEEE doubles: every operation rounds to the nearest
    double. The sums of volumes and the constants of the fallback rate are exact. A
    division whose divisor can be zero returns an option (\<open>None\<close> stands for \<^verbatim>\<open>NaN\<close> or
    an infinity).
  \<^item> Every \<^verbatim>\<open>throw\<close> is the left injection of a sum; every mutable object is a
    record that is passed in and returned.
  \<^item> Log output (\<^verbatim>\<open>this.log\<close>, \<^verbatim>\<open>console.error\<close>) has no effect on any value the
    service returns or stores and is left out.
\<close>

section \<open>Errors\<close>

text \<open>
  \<^verbatim>\<open>RateLimitError\<close> extends \<^verbatim>\<open>AxelarAPIError\<close> with status 429 and
  \<^verbatim>\<open>retryable = true\<close>; \<^verbatim>\<open>PriceAPIError\<close> and the plain \<^verbatim>\<open>Error\<close> do not extend
  it. Messages are kept for plain errors only; the endpoint field is dropped.
\<close>

datatype error =
    Error string
  | AxelarAPIError int bool
  | RateLimitError int
  | PriceAPIError string

text \<open>\<^verbatim>\<open>e instanceof AxelarAPIError\<close>\<close>

fun instanceofAxelarAPIError :: "error \<Rightarrow> bool" where
  "instanceofAxelarAPIError (AxelarAPIError sc r) = True"
| "instanceofAxelarAPIError (RateLimitError ms) = True"
| "instanceofAxelarAPIError (Error m) = False"
| "instanceofAxelarAPIError (PriceAPIError s) = False"

text \<open>The \<^verbatim>\<open>retryable\<close> field; only read on instances of \<^verbatim>\<open>AxelarAPIError\<close>.\<close>

fun retryable :: "error \<Rightarrow> bool" where
  "retryable (AxelarAPIError sc r) = r"
| "retryable (RateLimitError ms) = True"
| "retryable (Error m) = True"
| "retryable (PriceAPIError s) = True"

section \<open>TTL cache\<close>

record 'v CacheEntry =
  entry_value :: 'v
  expiresAt :: int
  accessCount :: nat

record ('k, 'v) TTLCache =
  store :: "'k \<rightharpoonup> 'v CacheEntry"
  hits :: nat
  misses :: nat
  ttlMs :: int

definition newTTLCache :: "int \<Rightarrow> ('k, 'v) TTLCache" where
  "newTTLCache ttl = \<lparr>store = Map.empty, hits = 0, misses = 0, ttlMs = ttl\<rparr>"

text \<open>\<^verbatim>\<open>TTLCache.get\<close>; the first argument is the reading of \<^verbatim>\<open>Date.now()\<close>.\<close>

definition TTLCache_get ::
  "int \<Rightarrow> 'k \<Rightarrow> ('k, 'v) TTLCache \<Rightarrow> 'v option \<times> ('k, 'v) TTLCache" where
  "TTLCache_get now key c =
     (case store c key of
        None \<Rightarrow> (None, c\<lparr>misses := misses c + 1\<rparr>)
      | Some hit \<Rightarrow>
          if now > expiresAt hit
          then (None, c\<lparr>store := (store c)(key := None), misses := misses c + 1\<rparr>)
          else (Some (entry_value hit),
                c\<lparr>store := (store c)(key \<mapsto> hit\<lparr>accessCount := accessCount hit + 1\<rparr>),
                  hits := hits c + 1\<rparr>))"

text \<open>\<^verbatim>\<open>TTLCache.set\<close>\<close>

definition TTLCache_set :: "int \<Rightarrow> 'k \<Rightarrow> 'v \<Rightarrow> ('k, 'v) TTLCache \<Rightarrow> ('k, 'v) TTLCache" where
  "TTLCache_set now key v c =
     c\<lparr>store := (store c)(key \<mapsto>
          \<lparr>entry_value = v, expiresAt = now + ttlMs c, accessCount = 0\<rparr>)\<rparr>"

section \<open>Request deduplicator\<close>

text \<open>
  \<^verbatim>\<open>RequestDeduplicator\<close> keeps a map from keys to promises. JavaScript runs one task at a
  time, so the body of \<^verbatim>\<open>deduplicate\<close> (it has no \<^verbatim>\<open>await\<close>) is one atomic step, and the
  settlement of the producer's promise, with the \<^verbatim>\<open>finally\<close> callback that deletes the
  key, is another. Promises are cells of a heap, addressed by their index; a handle
  returned to a caller is such an index. \<open>invoked\<close> logs the keys for which the producer
  \<^verbatim>\<open>fn\<close> was called, in order.
\<close>

datatype 'a Settlement = Fulfilled 'a | Rejected error

record 'a PromiseCell =
  promise_key :: string
  settlement :: "'a Settlement option"

record 'a RequestDeduplicator =
  pending :: "string \<rightharpoonup> nat"
  heap :: "'a PromiseCell list"
  invoked :: "string list"

definition newRequestDeduplicator :: "'a RequestDeduplicator" where
  "newRequestDeduplicator = \<lparr>pending = Map.empty, heap = [], invoked = []\<rparr>"

text \<open>\<^verbatim>\<open>RequestDeduplicator.deduplicate\<close>: the handle it returns and the new state.\<close>

definition deduplicate ::
  "string \<Rightarrow> 'a RequestDeduplicator \<Rightarrow> nat \<times> 'a RequestDeduplicator" where
  "deduplicate key d =
     (case pending d key of
        Some existing \<Rightarrow> (existing, d)
      | None \<Rightarrow>
          (let promise = length (heap d)
           in (promise,
               d\<lparr>heap := heap d @ [\<lparr>promise_key = key, settlement = None\<rparr>],
                 invoked := invoked d @ [key],
                 pending := (pending d)(key \<mapsto> promise)\<rparr>)))"

text \<open>
  The producer's promise \<open>p\<close> settles with \<open>outcome\<close>; its \<^verbatim>\<open>finally\<close> callback runs
  \<^verbatim>\<open>this.pending.delete(key)\<close> for the key the call captured. A promise settles once.
\<close>

definition settle ::
  "nat \<Rightarrow> 'a Settlement \<Rightarrow> 'a RequestDeduplicator \<Rightarrow> 'a RequestDeduplicator" where
  "settle p outcome d =
     (if p < length (heap d) \<and> settlement (heap d ! p) = None
      then d\<lparr>heap := (heap d)[p := (heap d ! p)\<lparr>settlement := Some outcome\<rparr>],
             pending := (pending d)(promise_key (heap d ! p) := None)\<rparr>
      else d)"

text \<open>What a caller that awaits handle \<open>h\<close> observes: nothing yet, or the settlement.\<close>

definition awaited :: "nat \<Rightarrow> 'a RequestDeduplicator \<Rightarrow> 'a Settlement option" where
  "awaited h d = (if h < length (heap d) then settlement (heap d ! h) else None)"

text \<open>\<open>n\<close> calls of \<^verbatim>\<open>deduplicate\<close> with one key, none of them separated by a settlement.\<close>

fun deduplicateMany ::
  "nat \<Rightarrow> string \<Rightarrow> 'a RequestDeduplicator \<Rightarrow> nat list \<times> 'a RequestDeduplicator" where
  "deduplicateMany 0 key d = ([], d)"
| "deduplicateMany (Suc n) key d =
     (let (h, d1) = deduplicate key d;
          (hs, d2) = deduplicateMany n key d1
      in (h # hs, d2))"

text \<open>
  The steps of the event loop that touch the deduplicator, in any order: a call of
  \<^verbatim>\<open>deduplicate\<close>, or the settlement of a producer's promise. A run collects, for every
  call, the key and the promise that was returned.
\<close>

datatype 'a DedupEvent = Call string | Settle nat "'a Settlement"

fun dedupStep ::
  "'a DedupEvent \<Rightarrow> 'a RequestDeduplicator \<Rightarrow> (string \<times> nat) list \<times> 'a RequestDeduplicator" where
  "dedupStep (Call key) d = (let (h, d1) = deduplicate key d in ([(key, h)], d1))"
| "dedupStep (Settle p outcome) d = ([], settle p outcome d)"

fun runEvents ::
  "'a DedupEvent list \<Rightarrow> 'a RequestDeduplicator
     \<Rightarrow> (string \<times> nat) list \<times> 'a RequestDeduplicator" where
  "runEvents [] d = ([], d)"
| "runEvents (ev # evs) d =
     (let (r1, d1) = dedupStep ev d;
          (r2, d2) = runEvents evs d1
      in (r1 @ r2, d2))"

text \<open>A promise that exists and has not settled.\<close>

definition inFlight :: "nat \<Rightarrow> 'a RequestDeduplicator \<Rightarrow> bool" where
  "inFlight p d = (p < length (heap d) \<and> settlement (heap d ! p) = None)"

text \<open>
  The pending map holds exactly the promises in flight, each under the key it was created
  for.
\<close>

definition pendingIsInFlight :: "'a RequestDeduplicator \<Rightarrow> bool" where
  "pendingIsInFlight d =
     ((\<forall>k p. pending d k = Some p \<longrightarrow> inFlight p d \<and> promise_key (heap d ! p) = k)
      \<and> (\<forall>p. inFlight p d \<longrightarrow> pending d (promise_key (heap d ! p)) = Some p))"

section \<open>Circuit breaker\<close>

datatype CircuitState = CLOSED | OPEN | HALF_OPEN

record CircuitBreaker =
  failures :: nat
  lastFailureTime :: int
  state :: CircuitState
  failureThreshold :: nat
  resetTimeoutMs :: int

definition newCircuitBreaker :: "nat \<Rightarrow> int \<Rightarrow> CircuitBreaker" where
  "newCircuitBreaker threshold resetTimeout =
     \<lparr>failures = 0, lastFailureTime = 0, state = CLOSED,
      failureThreshold = threshold, resetTimeoutMs = resetTimeout\<rparr>"

definition onSuccess :: "CircuitBreaker \<Rightarrow> CircuitBreaker" where
  "onSuccess cb = cb\<lparr>failures := 0, state := CLOSED\<rparr>"

definition onFailure :: "int \<Rightarrow> CircuitBreaker \<Rightarrow> CircuitBreaker" where
  "onFailure now cb =
     (let cb1 = cb\<lparr>failures := failures cb + 1, lastFailureTime := now\<rparr>
      in if failures cb1 \<ge> failureThreshold cb1 then cb1\<lparr>state := OPEN\<rparr> else cb1)"

text \<open>
  The check at the head of \<^verbatim>\<open>CircuitBreaker.execute\<close> (lines 191-197): either the
  breaker, possibly moved to \<open>HALF_OPEN\<close>, with which the call goes on, or the error thrown.
\<close>

definition execute_admit :: "int \<Rightarrow> CircuitBreaker \<Rightarrow> error + CircuitBreaker" where
  "execute_admit now cb =
     (if state cb = OPEN
      then (if now - lastFailureTime cb > resetTimeoutMs cb
            then Inr (cb\<lparr>state := HALF_OPEN\<rparr>)
            else Inl (Error ''Circuit breaker is OPEN''))
      else Inr cb)"

text \<open>
  \<^verbatim>\<open>CircuitBreaker.execute\<close>. The wrapped operation \<open>fn\<close> acts on a world \<open>'w\<close>, from
  which \<open>clock\<close> reads \<^verbatim>\<open>Date.now()\<close>; a world that \<open>fn\<close> never touched is the world
  \<open>execute\<close> was given.
\<close>

definition execute ::
  "('w \<Rightarrow> int) \<Rightarrow> ('w \<Rightarrow> (error + 'a) \<times> 'w) \<Rightarrow> CircuitBreaker \<times> 'w
     \<Rightarrow> (error + 'a) \<times> CircuitBreaker \<times> 'w" where
  "execute clock fn cbw =
     (case cbw of (cb, w) \<Rightarrow>
        (case execute_admit (clock w) cb of
           Inl e \<Rightarrow> (Inl e, cb, w)
         | Inr cb1 \<Rightarrow>
             (case fn w of
                (Inr result, w') \<Rightarrow> (Inr result, onSuccess cb1, w')
              | (Inl err, w') \<Rightarrow> (Inl err, onFailure (clock w') cb1, w'))))"

text \<open>\<open>n\<close> calls of \<^verbatim>\<open>execute\<close> with the same operation, one after the other.\<close>

fun executeMany ::
  "('w \<Rightarrow> int) \<Rightarrow> ('w \<Rightarrow> (error + 'a) \<times> 'w) \<Rightarrow> nat \<Rightarrow> CircuitBreaker \<times> 'w
     \<Rightarrow> CircuitBreaker \<times> 'w" where
  "executeMany clock fn 0 cbw = cbw"
| "executeMany clock fn (Suc n) cbw = executeMany clock fn n (snd (execute clock fn cbw))"

section \<open>Retry coordinator\<close>

definition maxRetries :: nat where
  "maxRetries = 3"

definition retryDelayMs :: int where
  "retryDelayMs = 1000"

text \<open>
  The delay computed at lines 1020-1027; \<open>r\<close> is the value \<^verbatim>\<open>Math.random()\<close> returned.
\<close>

definition retryDelay :: "nat \<Rightarrow> real \<Rightarrow> error \<Rightarrow> int" where
  "retryDelay attempt r lastError =
     (let baseDelay = retryDelayMs * 2 ^ attempt;
          jitter = \<lfloor>r * 250\<rfloor>
      in case lastError of
           RateLimitError retryAfterMs \<Rightarrow> retryAfterMs
         | _ \<Rightarrow> baseDelay + jitter)"

text \<open>
  The loop of \<^verbatim>\<open>retryOperation\<close> from a given value of \<^verbatim>\<open>attempt\<close>. \<open>rnd i\<close> is what
  \<^verbatim>\<open>Math.random()\<close> returns in iteration \<open>i\<close>; the delays passed to \<^verbatim>\<open>setTimeout\<close> are
  collected in order. The operation acts on a world \<open>'w\<close>.
\<close>

function retryLoop ::
  "(nat \<Rightarrow> real) \<Rightarrow> ('w \<Rightarrow> (error + 'a) \<times> 'w) \<Rightarrow> nat \<Rightarrow> error option \<Rightarrow> int list \<Rightarrow> 'w
     \<Rightarrow> (error + 'a) \<times> int list \<times> 'w" where
  "retryLoop rnd operation attempt lastError delays w =
     (if attempt < maxRetries then
        (case operation w of
           (Inr result, w') \<Rightarrow> (Inr result, delays, w')
         | (Inl e, w') \<Rightarrow>
             if instanceofAxelarAPIError e \<and> \<not> retryable e then (Inl e, delays, w')
             else if attempt < maxRetries - 1
             then retryLoop rnd operation (attempt + 1) (Some e)
                    (delays @ [retryDelay attempt (rnd attempt) e]) w'
             else retryLoop rnd operation (attempt + 1) (Some e) delays w')
      else (case lastError of
              Some e \<Rightarrow> (Inl e, delays, w)
            | None \<Rightarrow> (Inl (Error ''Operation failed after retries''), delays, w)))"
  by pat_completeness auto
termination
  by (relation "measure (\<lambda>(rnd, operation, attempt, lastError, delays, w). maxRetries - attempt)")
     auto

declare retryLoop.simps [simp del]

definition retryOperation ::
  "(nat \<Rightarrow> real) \<Rightarrow> ('w \<Rightarrow> (error + 'a) \<times> 'w) \<Rightarrow> 'w \<Rightarrow> (error + 'a) \<times> int list \<times> 'w" where
  "retryOperation rnd operation w = retryLoop rnd operation 0 None [] w"

section \<open>The upstream services and the state of the data provider\<close>

text \<open>
  The upstream HTTP services are an oracle: \<open>fetch env request u\<close> is what the global
  \<^verbatim>\<open>fetch\<close> does with the request in the state \<open>u\<close> of the outside world, and the
  world's next state. The oracle decides whether the deadline of \<^verbatim>\<open>fetchWithTimeout\<close>
  passes first (\<open>AbortError\<close>). \<open>dateNow env u\<close> is \<^verbatim>\<open>Date.now()\<close> in state \<open>u\<close>, and
  \<open>random env i\<close> is the value of \<^verbatim>\<open>Math.random()\<close> in iteration \<open>i\<close> of a retry loop.

  A request is the endpoint with the parameters the service puts into the URL. A JSON
  body is represented by the values of the access paths the service reads:
  \<^verbatim>\<open>data.data\<close> (an array of transfers, an array of assets, an object with
  \<^verbatim>\<open>fee_usd\<close>, or something else), \<^verbatim>\<open>data.pagination.next_cursor\<close>,
  \<^verbatim>\<open>data.next.cursor\<close> and \<^verbatim>\<open>json[address].usd\<close>. Numeric fields hold numbers. A
  response whose \<^verbatim>\<open>json()\<close> rejects has no body; a body that parses is an object.
\<close>

record Transfer =
  value_usd :: "real option"
  amount_usd :: "real option"

record AxelarAsset =
  ax_denom :: string
  ax_symbol :: string
  ax_decimals :: nat
  ax_addresses :: "(string \<times> string) list option"

datatype JsonData =
    DataTransfers "Transfer list"
  | DataAssets "AxelarAsset list"
  | DataFee "real option"
  | DataOther

record JsonBody =
  data :: JsonData
  pagination_next_cursor :: "string option"
  next_cursor :: "string option"
  usd :: "string \<Rightarrow> real option"

record Response =
  status :: int
  retry_after :: "int option"
  json :: "JsonBody option"

text \<open>\<^verbatim>\<open>response.ok\<close>: the status is in the range 200-299.\<close>

definition ok :: "Response \<Rightarrow> bool" where
  "ok response = (200 \<le> status response \<and> status response \<le> 299)"

datatype Request =
    TransfersRequest int int "string option"
  | FeesRequest string string string
  | ChainsRequest
  | AssetsRequest
  | PriceRequest string string

datatype FetchOutcome = Responded Response | AbortError | NetworkFailure

record 'u Env =
  dateNow :: "'u \<Rightarrow> int"
  fetch :: "Request \<Rightarrow> 'u \<Rightarrow> FetchOutcome \<times> 'u"
  random :: "nat \<Rightarrow> real"

record PerformanceMetrics =
  apiCalls :: nat
  cacheHits :: nat
  cacheMisses :: nat
  errors :: nat
  totalResponseTime :: int

record Asset =
  chainId :: string
  assetId :: string
  symbol :: string
  decimals :: nat

record Route =
  source :: Asset
  destination :: Asset

text \<open>
  \<open>amountIn\<close> is \<^verbatim>\<open>Number(amountIn)\<close> of the notional string, \<open>amountOut\<close> the integer
  that \<^verbatim>\<open>Math.floor(amountOutNum).toString()\<close> prints, and the timestamps are the clock
  readings that \<^verbatim>\<open>new Date().toISOString()\<close> prints.
\<close>

record Rate =
  rate_source :: Asset
  rate_destination :: Asset
  amountIn :: real
  amountOut :: int
  effectiveRate :: "real option"
  totalFeesUsd :: real
  quotedAt :: int

record LiquidityThreshold =
  maxAmountIn :: int
  slippageBps :: nat

record LiquidityDepth =
  route :: Route
  thresholds :: "LiquidityThreshold list"
  depth_measuredAt :: int

datatype Window = W24h | W7d | W30d

record VolumeWindow =
  window :: Window
  volumeUsd :: real
  measuredAt :: int

record ListedAssets =
  assets :: "Asset list"
  assets_measuredAt :: int

record ProviderSnapshot =
  volumes :: "VolumeWindow list"
  rates :: "Rate list"
  liquidity :: "LiquidityDepth list"
  listedAssets :: ListedAssets

text \<open>
  The mutable fields of \<^verbatim>\<open>DataProviderService\<close> that its methods read or write, and the
  state of the outside world. (\<^verbatim>\<open>chainCache\<close> and \<^verbatim>\<open>axelarscanCircuit\<close> are only read by
  \<^verbatim>\<open>getMetrics\<close>.)
\<close>

record 'u Service =
  metrics :: PerformanceMetrics
  priceCache :: "(string, real) TTLCache"
  assetCache :: "(string, ListedAssets) TTLCache"
  priceCircuit :: CircuitBreaker
  upstream :: 'u

definition newService :: "'u \<Rightarrow> 'u Service" where
  "newService u =
     \<lparr>metrics = \<lparr>apiCalls = 0, cacheHits = 0, cacheMisses = 0, errors = 0,
                 totalResponseTime = 0\<rparr>,
      priceCache = newTTLCache (5 * 60 * 1000),
      assetCache = newTTLCache (60 * 60 * 1000),
      priceCircuit = newCircuitBreaker 3 30000,
      upstream = u\<rparr>"

section \<open>Timeout-bounded fetcher\<close>

definition countError :: "'u Service \<Rightarrow> 'u Service" where
  "countError s = s\<lparr>metrics := (metrics s)\<lparr>errors := errors (metrics s) + 1\<rparr>\<rparr>"

definition countCall :: "int \<Rightarrow> 'u Service \<Rightarrow> 'u Service" where
  "countCall duration s =
     s\<lparr>metrics := (metrics s)\<lparr>apiCalls := apiCalls (metrics s) + 1,
         totalResponseTime := totalResponseTime (metrics s) + duration\<rparr>\<rparr>"

text \<open>
  \<^verbatim>\<open>fetchWithTimeout\<close>. \<^verbatim>\<open>Number(response.headers.get("retry-after") || "1")\<close> is the
  header's number, or 1 when the header is absent or empty.
\<close>

definition fetchWithTimeout ::
  "'u Env \<Rightarrow> Request \<Rightarrow> 'u Service \<Rightarrow> (error + Response) \<times> 'u Service" where
  "fetchWithTimeout env request s =
     (let startTime = dateNow env (upstream s);
          (outcome, u') = fetch env request (upstream s);
          s1 = s\<lparr>upstream := u'\<rparr>
      in case outcome of
           Responded response \<Rightarrow>
             (let duration = dateNow env u' - startTime;
                  s2 = countCall duration s1
              in if status response = 429
                 then (let retryAfter = (case retry_after response of Some n \<Rightarrow> n | None \<Rightarrow> 1)
                       in (Inl (RateLimitError (retryAfter * 1000)), countError s2))
                 else if \<not> ok response \<and> status response \<ge> 400
                 then (Inl (AxelarAPIError (status response) (status response \<ge> 500)),
                       countError s2)
                 else (Inr response, s2))
         | AbortError \<Rightarrow> (Inl (AxelarAPIError 0 True), countError s1)
         | NetworkFailure \<Rightarrow> (Inl (AxelarAPIError 0 True), countError s1))"

section \<open>Volumes\<close>

definition timeRanges :: "Window \<Rightarrow> int" where
  "timeRanges w =
     (case w of W24h \<Rightarrow> 24 * 60 * 60 * 1000
      | W7d \<Rightarrow> 7 * 24 * 60 * 60 * 1000
      | W30d \<Rightarrow> 30 * 24 * 60 * 60 * 1000)"

definition getEstimatedVolume :: "Window \<Rightarrow> real" where
  "getEstimatedVolume w =
     (case w of W24h \<Rightarrow> 8000000 | W7d \<Rightarrow> 60000000 | W30d \<Rightarrow> 250000000)"

text \<open>\<^verbatim>\<open>a || b\<close> on optional strings: the empty string is falsy.\<close>

definition orString :: "string option \<Rightarrow> string option \<Rightarrow> string option" where
  "orString a b = (case a of Some x \<Rightarrow> (if x \<noteq> [] then Some x else b) | None \<Rightarrow> b)"

text \<open>\<^verbatim>\<open>Number(transfer.value_usd || transfer.amount_usd || 0)\<close>: zero is falsy.\<close>

definition transferUsd :: "Transfer \<Rightarrow> real" where
  "transferUsd t =
     (case value_usd t of
        Some v \<Rightarrow> (if v \<noteq> 0 then v
                   else (case amount_usd t of Some a \<Rightarrow> a | None \<Rightarrow> 0))
      | None \<Rightarrow> (case amount_usd t of Some a \<Rightarrow> a | None \<Rightarrow> 0))"

definition pageVolume :: "JsonBody \<Rightarrow> real" where
  "pageVolume body =
     (case data body of
        DataTransfers ts \<Rightarrow> sum_list (map transferUsd ts)
      | _ \<Rightarrow> 0)"

text \<open>
  The \<^verbatim>\<open>while (remaining-- > 0)\<close> loop of \<^verbatim>\<open>getVolumes\<close>: the pages still allowed, the
  cursor and the running total; an error is what the loop body throws.
\<close>

fun fetchTransferPages ::
  "'u Env \<Rightarrow> int \<Rightarrow> int \<Rightarrow> nat \<Rightarrow> string option \<Rightarrow> real \<Rightarrow> 'u Service
     \<Rightarrow> (error + real) \<times> 'u Service" where
  "fetchTransferPages env fromTime now 0 cursor totalVolumeUsd s = (Inr totalVolumeUsd, s)"
| "fetchTransferPages env fromTime now (Suc remaining) cursor totalVolumeUsd s =
     (case fetchWithTimeout env (TransfersRequest fromTime now (orString cursor None)) s of
        (Inl e, s1) \<Rightarrow> (Inl e, s1)
      | (Inr response, s1) \<Rightarrow>
          if \<not> ok response then (Inl (Error ''Axelarscan API error''), s1)
          else (case json response of
                  None \<Rightarrow> (Inl (Error ''response.json() failed''), s1)
                | Some body \<Rightarrow>
                    (let summed = totalVolumeUsd + pageVolume body;
                         next = orString (pagination_next_cursor body) (next_cursor body)
                     in case next of
                          None \<Rightarrow> (Inr summed, s1)
                        | Some c \<Rightarrow>
                            fetchTransferPages env fromTime now remaining (Some c) summed s1)))"

text \<open>The body of the \<^verbatim>\<open>for (const window of windows)\<close> loop of \<^verbatim>\<open>getVolumes\<close>.\<close>

definition getVolume :: "'u Env \<Rightarrow> Window \<Rightarrow> 'u Service \<Rightarrow> VolumeWindow \<times> 'u Service" where
  "getVolume env w s =
     (let now = dateNow env (upstream s);
          fromTime = now - timeRanges w
      in case fetchTransferPages env fromTime now 5 None 0 s of
           (Inr totalVolumeUsd, s1) \<Rightarrow>
             (\<lparr>window = w,
               volumeUsd = (if totalVolumeUsd \<noteq> 0 then totalVolumeUsd
                            else getEstimatedVolume w),
               measuredAt = dateNow env (upstream s1)\<rparr>, s1)
         | (Inl e, s1) \<Rightarrow>
             (\<lparr>window = w, volumeUsd = getEstimatedVolume w,
               measuredAt = dateNow env (upstream s1)\<rparr>, s1))"

fun getVolumes ::
  "'u Env \<Rightarrow> Window list \<Rightarrow> 'u Service \<Rightarrow> (error + VolumeWindow list) \<times> 'u Service" where
  "getVolumes env [] s = (Inr [], s)"
| "getVolumes env (w # ws) s =
     (let (v, s1) = getVolume env w s
      in case getVolumes env ws s1 of
           (Inr vs, s2) \<Rightarrow> (Inr (v # vs), s2)
         | (Inl e, s2) \<Rightarrow> (Inl e, s2))"

definition getVolumesWithRetry ::
  "'u Env \<Rightarrow> Window list \<Rightarrow> 'u Service \<Rightarrow> (error + VolumeWindow list) \<times> 'u Service" where
  "getVolumesWithRetry env windows s =
     (case retryOperation (random env) (getVolumes env windows) s of
        (result, delays, s1) \<Rightarrow> (result, s1))"

section \<open>Prices\<close>

text \<open>Strings are ASCII; \<^verbatim>\<open>toUpperCase\<close> and \<^verbatim>\<open>toLowerCase\<close> act on the letters.\<close>

definition toUpperChar :: "char \<Rightarrow> char" where
  "toUpperChar c =
     (let n = (of_char c :: nat) in if 97 \<le> n \<and> n \<le> 122 then char_of (n - 32) else c)"

definition toLowerChar :: "char \<Rightarrow> char" where
  "toLowerChar c =
     (let n = (of_char c :: nat) in if 65 \<le> n \<and> n \<le> 90 then char_of (n + 32) else c)"

definition toUpperCase :: "string \<Rightarrow> string" where
  "toUpperCase = map toUpperChar"

definition toLowerCase :: "string \<Rightarrow> string" where
  "toLowerCase = map toLowerChar"

fun startsWith :: "string \<Rightarrow> string \<Rightarrow> bool" where
  "startsWith cs [] = True"
| "startsWith [] (p # ps) = False"
| "startsWith (c # cs) (p # ps) = (c = p \<and> startsWith cs ps)"

text \<open>\<^verbatim>\<open>s.includes(sub)\<close>\<close>

fun str_includes :: "string \<Rightarrow> string \<Rightarrow> bool" where
  "str_includes [] sub = (sub = [])"
| "str_includes (c # cs) sub = (startsWith (c # cs) sub \<or> str_includes cs sub)"

text \<open>\<^verbatim>\<open>platformMap[params.chainId] || "ethereum"\<close>\<close>

definition platformOf :: "string \<Rightarrow> string" where
  "platformOf chain =
     (if chain = ''1'' then ''ethereum''
      else if chain = ''137'' then ''polygon-pos''
      else if chain = ''56'' then ''binance-smart-chain''
      else if chain = ''43114'' then ''avalanche''
      else if chain = ''42161'' then ''arbitrum-one''
      else if chain = ''10'' then ''optimistic-ethereum''
      else if chain = ''250'' then ''fantom''
      else ''ethereum'')"

text \<open>The operation that \<^verbatim>\<open>getUsdPrice\<close> hands to \<^verbatim>\<open>priceCircuit.execute\<close>.\<close>

definition fetchPrice ::
  "'u Env \<Rightarrow> string \<Rightarrow> string \<Rightarrow> string \<Rightarrow> 'u Service \<Rightarrow> (error + real) \<times> 'u Service" where
  "fetchPrice env chain assetAddress symb s =
     (let startTime = dateNow env (upstream s)
      in case fetchWithTimeout env (PriceRequest (platformOf chain) assetAddress) s of
           (Inl e, s1) \<Rightarrow> (Inl e, s1)
         | (Inr res, s1) \<Rightarrow>
             (let s2 = countCall (dateNow env (upstream s1) - startTime) s1
              in if ok res
                 then (case json res of
                         None \<Rightarrow> (Inl (Error ''response.json() failed''), s2)
                       | Some body \<Rightarrow>
                           (let price = (case usd body (toLowerCase assetAddress) of
                                           Some p \<Rightarrow> p | None \<Rightarrow> 0)
                            in if price > 0 then (Inr price, s2)
                               else (Inl (PriceAPIError symb), s2)))
                 else (Inl (PriceAPIError symb), s2)))"

definition setPrice :: "'u Env \<Rightarrow> string \<Rightarrow> real \<Rightarrow> 'u Service \<Rightarrow> 'u Service" where
  "setPrice env cacheKey price s =
     s\<lparr>priceCache := TTLCache_set (dateNow env (upstream s)) cacheKey price (priceCache s)\<rparr>"

text \<open>
  \<^verbatim>\<open>getUsdPrice\<close>. The service's methods are run one after the other here, so no
  operation is in flight when \<^verbatim>\<open>deduplicator.deduplicate\<close> is entered and it calls the
  producer.
\<close>

definition getUsdPrice ::
  "'u Env \<Rightarrow> string \<Rightarrow> string \<Rightarrow> string \<Rightarrow> 'u Service \<Rightarrow> real \<times> 'u Service" where
  "getUsdPrice env chain assetAddress symb s =
     (let cacheKey = toLowerCase (chain @ '':'' @ assetAddress);
          (cached, pc) = TTLCache_get (dateNow env (upstream s)) cacheKey (priceCache s);
          s1 = s\<lparr>priceCache := pc\<rparr>
      in case cached of
           Some p \<Rightarrow>
             (p, s1\<lparr>metrics := (metrics s1)\<lparr>cacheHits := cacheHits (metrics s1) + 1\<rparr>\<rparr>)
         | None \<Rightarrow>
             (let s2 = s1\<lparr>metrics := (metrics s1)\<lparr>cacheMisses := cacheMisses (metrics s1) + 1\<rparr>\<rparr>;
                  upper = toUpperCase symb
              in if str_includes upper ''USDC'' \<or> str_includes upper ''USDT''
                    \<or> str_includes upper ''DAI'' \<or> str_includes upper ''BUSD''
                 then (1, setPrice env cacheKey 1 s2)
                 else (case execute (\<lambda>x. dateNow env (upstream x))
                              (fetchPrice env chain assetAddress symb) (priceCircuit s2, s2) of
                         (Inr price, cb, s3) \<Rightarrow>
                           (price, setPrice env cacheKey price (s3\<lparr>priceCircuit := cb\<rparr>))
                       | (Inl e, cb, s3) \<Rightarrow>
                           (1, setPrice env cacheKey 1 (s3\<lparr>priceCircuit := cb\<rparr>)))))"

section \<open>IEEE doubles\<close>

text \<open>
  A JavaScript number is an IEEE 754 binary64 value. A finite one is a real \<open>m * 2 ^ e\<close>
  with an integer \<open>m\<close> of at most 53 bits and \<open>e \<ge> -1074\<close>; every arithmetic operation
  returns the double nearest to the exact result, a tie going to the even significand.
\<close>

text \<open>The nearest integer, a tie going to the even one.\<close>

definition roundHalfEven :: "real \<Rightarrow> int" where
  "roundHalfEven x =
     (let n = \<lfloor>x\<rfloor>; r = x - real_of_int n
      in if r < 1 / 2 then n else if 1 / 2 < r then n + 1 else if even n then n else n + 1)"

text \<open>\<open>\<lfloor>log\<^sub>2 m\<rfloor>\<close> of a positive real, computed from the bit length of an integer.\<close>

definition binaryExponent :: "real \<Rightarrow> int" where
  "binaryExponent m =
     (if 1 \<le> m then bitlen \<lfloor>m\<rfloor> - 1 else - bitlen (\<lceil>1 / m\<rceil> - 1))"

definition pow2 :: "int \<Rightarrow> real" where
  "pow2 k = (if 0 \<le> k then 2 ^ nat k else 1 / 2 ^ nat (- k))"

text \<open>
  The double nearest to a real. The spacing of the doubles around \<open>x\<close> is
  \<open>2 ^ (e - 52)\<close> for \<open>e = \<lfloor>log\<^sub>2 \<bar>x\<bar>\<rfloor>\<close>, and \<open>2 ^ (- 1074)\<close> below \<open>2 ^ (- 1022)\<close>
  (the subnormal range). A magnitude of \<open>2 ^ 1024\<close> or more, which JavaScript turns into
  an infinity, is kept finite here.
\<close>

definition double :: "real \<Rightarrow> real" where
  "double x =
     (if x = 0 then 0
      else (let e = max (binaryExponent \<bar>x\<bar>) (- 1022);
                ulp = pow2 (e - 52)
            in real_of_int (roundHalfEven (x / ulp)) * ulp))"

section \<open>Rates\<close>

text \<open>A quotient of JavaScript numbers that is finite; \<open>None\<close> when the divisor is zero.\<close>

definition jsDivide :: "real \<Rightarrow> real \<Rightarrow> real option" where
  "jsDivide a b = (if b = 0 then None else Some (a / b))"

text \<open>
  \<^verbatim>\<open>Number(x.toFixed(6))\<close> of a double \<open>x\<close>: \<^verbatim>\<open>toFixed\<close> takes the integer \<open>n\<close> for which
  \<open>n / 10 ^ 6\<close> is nearest to the magnitude of \<open>x\<close> (the larger one at a tie) and puts
  the sign back; \<^verbatim>\<open>Number\<close> reads the decimal string as the nearest double.
\<close>

definition toFixed6 :: "real \<Rightarrow> real" where
  "toFixed6 x =
     (if x < 0 then - double (real_of_int \<lfloor>- x * 1000000 + 1 / 2\<rfloor> / 1000000)
      else double (real_of_int \<lfloor>x * 1000000 + 1 / 2\<rfloor> / 1000000))"

text \<open>\<^verbatim>\<open>createFallbackRate\<close>; \<open>now\<close> is the clock reading for \<^verbatim>\<open>quotedAt\<close>.\<close>

definition createFallbackRate :: "Asset \<Rightarrow> Asset \<Rightarrow> real \<Rightarrow> int \<Rightarrow> Rate" where
  "createFallbackRate src dst amountInNum now =
     (let rate = 0.999;
          amountOutNum = amountInNum * rate
      in \<lparr>rate_source = src, rate_destination = dst, amountIn = amountInNum,
          amountOut = \<lfloor>amountOutNum\<rfloor>,
          effectiveRate = Some rate,
          totalFeesUsd = (amountInNum / 10 ^ decimals src) * 0.001 + 5,
          quotedAt = now\<rparr>)"

text \<open>
  Lines 611-620: the gas fee in USD that the fee response quotes, or the default of 5.
  \<open>feeData\<close> is the parsed body of the fee response (\<open>None\<close> for \<^verbatim>\<open>null\<close>); a
  \<^verbatim>\<open>fee_usd\<close> of zero is falsy.
\<close>

definition upstreamGasFeeUsd :: "JsonBody option \<Rightarrow> real" where
  "upstreamGasFeeUsd feeData =
     (let gasFeeUsdDefault = 5
      in case feeData of
           Some body \<Rightarrow>
             (case data body of
                DataFee (Some fee_usd) \<Rightarrow>
                  (if double fee_usd \<noteq> 0 then double fee_usd else gasFeeUsdDefault)
              | _ \<Rightarrow> gasFeeUsdDefault)
         | None \<Rightarrow> gasFeeUsdDefault)"

text \<open>Lines 622-626: the gas fee after the cap; \<open>amountInUsd\<close> is the USD value of the transfer.\<close>

definition gasFeeUsd :: "JsonBody option \<Rightarrow> real \<Rightarrow> real" where
  "gasFeeUsd feeData amountInUsd =
     (let gas = upstreamGasFeeUsd feeData
      in if amountInUsd > 0 \<and> gas > double (amountInUsd * 0.5)
         then double (amountInUsd * 0.5) else gas)"

text \<open>
  Lines 628-632: the total fee and the fee ratio. The literals \<^verbatim>\<open>0.001\<close> and \<^verbatim>\<open>0.99\<close> are
  the doubles nearest to them.
\<close>

definition totalFeeUsd :: "JsonBody option \<Rightarrow> real \<Rightarrow> real \<Rightarrow> real" where
  "totalFeeUsd feeData amountInNormalized priceUsd =
     (let baseFeePercent = double 0.001
      in double (double (double (amountInNormalized * priceUsd) * baseFeePercent)
                 + gasFeeUsd feeData (double (amountInNormalized * priceUsd))))"

definition feeRatio :: "JsonBody option \<Rightarrow> real \<Rightarrow> real \<Rightarrow> real" where
  "feeRatio feeData amountInNormalized priceUsd =
     (let amountInUsd = double (amountInNormalized * priceUsd)
      in if amountInUsd > 0
         then min (double (totalFeeUsd feeData amountInNormalized priceUsd / amountInUsd))
                (double 0.99)
         else double 0.001)"

text \<open>
  Lines 597-649 of \<^verbatim>\<open>getAxelarQuote\<close>, in the arithmetic of doubles: the rate computed
  from the amount that the string \<^verbatim>\<open>amountIn\<close> denotes, the fee response, the price and
  the clock reading for \<^verbatim>\<open>quotedAt\<close>. \<^verbatim>\<open>Math.pow(10, n)\<close> is \<open>10 ^ n\<close>, which is a
  double up to \<open>n = 22\<close>; beyond that it is taken as the double nearest to \<open>10 ^ n\<close>.
\<close>

definition quoteRate :: "Asset \<Rightarrow> Asset \<Rightarrow> real \<Rightarrow> JsonBody option \<Rightarrow> real \<Rightarrow> int \<Rightarrow> Rate" where
  "quoteRate src dst amount feeData priceUsd now =
     (let amountInNum = double amount;
          amountInNormalized = double (amountInNum / double (10 ^ decimals src));
          ratio = feeRatio feeData amountInNormalized priceUsd;
          amountOutNum = max 0 \<lfloor>double (amountInNum * double (1 - ratio))\<rfloor>;
          amountOutNormalized = double (real_of_int amountOutNum / double (10 ^ decimals dst))
      in \<lparr>rate_source = src, rate_destination = dst, amountIn = amount,
          amountOut = amountOutNum,
          effectiveRate = map_option double (jsDivide amountOutNormalized amountInNormalized),
          totalFeesUsd = toFixed6 (totalFeeUsd feeData amountInNormalized priceUsd),
          quotedAt = now\<rparr>)"

text \<open>
  \<^verbatim>\<open>getAxelarQuote\<close>. Its \<^verbatim>\<open>catch\<close> returns the fallback rate, so every result is a
  rate; the sum type is that of an \<^verbatim>\<open>async\<close> function, which the callers guard with
  \<^verbatim>\<open>try\<close>.
\<close>

definition getAxelarQuote ::
  "'u Env \<Rightarrow> Asset \<Rightarrow> Asset \<Rightarrow> real \<Rightarrow> 'u Service \<Rightarrow> (error + Rate) \<times> 'u Service" where
  "getAxelarQuote env src dst amountInNum s =
     (case fetchWithTimeout env (FeesRequest (chainId src) (chainId dst) (symbol src)) s of
        (Inl e, s1) \<Rightarrow>
          (Inr (createFallbackRate src dst amountInNum (dateNow env (upstream s1))), s1)
      | (Inr response, s1) \<Rightarrow>
          if ok response \<and> json response = None
          then (Inr (createFallbackRate src dst amountInNum (dateNow env (upstream s1))), s1)
          else (let feeData = (if ok response then json response else None);
                    (priceUsd, s2) = getUsdPrice env (chainId src) (assetId src) (symbol src) s1
                in (Inr (quoteRate src dst amountInNum feeData priceUsd
                           (dateNow env (upstream s2))), s2)))"

text \<open>\<^verbatim>\<open>getRates\<close>: the inner loop over the notionals, then the loop over the routes.\<close>

fun getRatesOfRoute ::
  "'u Env \<Rightarrow> Route \<Rightarrow> real list \<Rightarrow> 'u Service \<Rightarrow> Rate list \<times> 'u Service" where
  "getRatesOfRoute env r [] s = ([], s)"
| "getRatesOfRoute env r (notional # notionals) s =
     (let (rate, s1) =
            (case getAxelarQuote env (source r) (destination r) notional s of
               (Inr q, s1) \<Rightarrow> (q, s1)
             | (Inl e, s1) \<Rightarrow>
                 (createFallbackRate (source r) (destination r) notional
                    (dateNow env (upstream s1)), s1));
          (rest, s2) = getRatesOfRoute env r notionals s1
      in (rate # rest, s2))"

fun getRates ::
  "'u Env \<Rightarrow> Route list \<Rightarrow> real list \<Rightarrow> 'u Service \<Rightarrow> (error + Rate list) \<times> 'u Service" where
  "getRates env [] notionals s = (Inr [], s)"
| "getRates env (r # rs) notionals s =
     (let (here, s1) = getRatesOfRoute env r notionals s
      in case getRates env rs notionals s1 of
           (Inr rest, s2) \<Rightarrow> (Inr (here @ rest), s2)
         | (Inl e, s2) \<Rightarrow> (Inl e, s2))"

definition getRatesWithRetry ::
  "'u Env \<Rightarrow> Route list \<Rightarrow> real list \<Rightarrow> 'u Service \<Rightarrow> (error + Rate list) \<times> 'u Service" where
  "getRatesWithRetry env routes notionals s =
     (case retryOperation (random env) (getRates env routes notionals) s of
        (result, delays, s1) \<Rightarrow> (result, s1))"

section \<open>Liquidity depth\<close>

text \<open>
  \<^verbatim>\<open>Math.abs((quote.effectiveRate - baselineRate) / baselineRate) * 10_000\<close>; \<open>None\<close> is
  \<^verbatim>\<open>NaN\<close> or an infinity, for which both comparisons of the ladder are false.
\<close>

definition slippageOf :: "real option \<Rightarrow> real option \<Rightarrow> real option" where
  "slippageOf q b =
     (case q of
        Some qr \<Rightarrow>
          (case b of
             Some br \<Rightarrow> (case jsDivide (qr - br) br of
                           Some x \<Rightarrow> Some (\<bar>x\<bar> * 10000)
                         | None \<Rightarrow> None)
           | None \<Rightarrow> None)
      | None \<Rightarrow> None)"

definition withinBps :: "real option \<Rightarrow> real \<Rightarrow> bool" where
  "withinBps slippage bound = (case slippage of Some x \<Rightarrow> x \<le> bound | None \<Rightarrow> False)"

text \<open>
  The loop over \<^verbatim>\<open>testAmounts\<close>; the pair is \<^verbatim>\<open>(max50, max100)\<close>. A quote that throws
  ends the loop.
\<close>

fun probeLadder ::
  "'u Env \<Rightarrow> Route \<Rightarrow> real option \<Rightarrow> int list \<Rightarrow> int \<times> int \<Rightarrow> 'u Service
     \<Rightarrow> (int \<times> int) \<times> 'u Service" where
  "probeLadder env r baselineRate [] found s = (found, s)"
| "probeLadder env r baselineRate (amount # amounts) found s =
     (case getAxelarQuote env (source r) (destination r) (real_of_int amount) s of
        (Inl e, s1) \<Rightarrow> (found, s1)
      | (Inr q, s1) \<Rightarrow>
          (let slippage = slippageOf (effectiveRate q) baselineRate;
               max50 = (if withinBps slippage 50 then amount else fst found);
               max100 = (if withinBps slippage 100 then amount else snd found)
           in probeLadder env r baselineRate amounts (max50, max100) s1))"

text \<open>The entry pushed by the \<^verbatim>\<open>catch\<close> of \<^verbatim>\<open>getLiquidityDepth\<close>.\<close>

definition fallbackLiquidity :: "Route \<Rightarrow> int \<Rightarrow> LiquidityDepth" where
  "fallbackLiquidity r now =
     \<lparr>route = r,
      thresholds =
        [\<lparr>maxAmountIn = 800000 * 10 ^ decimals (source r), slippageBps = 50\<rparr>,
         \<lparr>maxAmountIn = 600000 * 10 ^ decimals (source r), slippageBps = 100\<rparr>],
      depth_measuredAt = now\<rparr>"

text \<open>The body of the loop over the routes in \<^verbatim>\<open>getLiquidityDepth\<close>.\<close>

definition getLiquidityOfRoute ::
  "'u Env \<Rightarrow> Route \<Rightarrow> 'u Service \<Rightarrow> LiquidityDepth \<times> 'u Service" where
  "getLiquidityOfRoute env r s =
     (let scale = 10 ^ decimals (source r);
          baselineAmount = 50000 * scale
      in case getAxelarQuote env (source r) (destination r) (real_of_int baselineAmount) s of
           (Inl e, s1) \<Rightarrow> (fallbackLiquidity r (dateNow env (upstream s1)), s1)
         | (Inr baselineQuote, s1) \<Rightarrow>
             (let testAmounts = [100000 * scale, 500000 * scale, 1000000 * scale];
                  (found, s2) = probeLadder env r (effectiveRate baselineQuote) testAmounts
                                  (50000 * scale, 50000 * scale) s1
              in (\<lparr>route = r,
                   thresholds = [\<lparr>maxAmountIn = fst found, slippageBps = 50\<rparr>,
                                 \<lparr>maxAmountIn = snd found, slippageBps = 100\<rparr>],
                   depth_measuredAt = dateNow env (upstream s2)\<rparr>, s2)))"

fun getLiquidityDepth ::
  "'u Env \<Rightarrow> Route list \<Rightarrow> 'u Service \<Rightarrow> (error + LiquidityDepth list) \<times> 'u Service" where
  "getLiquidityDepth env [] s = (Inr [], s)"
| "getLiquidityDepth env (r # rs) s =
     (let (entry, s1) = getLiquidityOfRoute env r s
      in case getLiquidityDepth env rs s1 of
           (Inr rest, s2) \<Rightarrow> (Inr (entry # rest), s2)
         | (Inl e, s2) \<Rightarrow> (Inl e, s2))"

definition getLiquidityDepthWithRetry ::
  "'u Env \<Rightarrow> Route list \<Rightarrow> 'u Service \<Rightarrow> (error + LiquidityDepth list) \<times> 'u Service" where
  "getLiquidityDepthWithRetry env rs s =
     (case retryOperation (random env) (getLiquidityDepth env rs) s of
        (result, delays, s1) \<Rightarrow> (result, s1))"

section \<open>Listed assets\<close>

definition getFallbackAssets :: "Asset list" where
  "getFallbackAssets =
     [\<lparr>chainId = ''1'', assetId = ''0xA0b86991c6218b36c1d19D4a2e9Eb0cE3606eB48'',
       symbol = ''USDC'', decimals = 6\<rparr>,
      \<lparr>chainId = ''1'', assetId = ''0xdAC17F958D2ee523a2206206994597C13D831ec7'',
       symbol = ''USDT'', decimals = 6\<rparr>,
      \<lparr>chainId = ''1'', assetId = ''0x2260FAC5E5542a773Aa44fBCfeDf7C193bc2C599'',
       symbol = ''WBTC'', decimals = 8\<rparr>,
      \<lparr>chainId = ''137'', assetId = ''0x2791Bca1f2de4661ED88A30C99A7a9449Aa84174'',
       symbol = ''USDC'', decimals = 6\<rparr>,
      \<lparr>chainId = ''137'', assetId = ''0xc2132D05D31c914a87C6611C10748AEb04B58e8F'',
       symbol = ''USDT'', decimals = 6\<rparr>,
      \<lparr>chainId = ''43114'', assetId = ''0xB97EF9Ef8734C71904D8002F8b6Bc66Dd9c48a6E'',
       symbol = ''USDC'', decimals = 6\<rparr>,
      \<lparr>chainId = ''42161'', assetId = ''0xFF970A61A04b1cA14834A43f5dE4533eBDDB5CC8'',
       symbol = ''USDC'', decimals = 6\<rparr>,
      \<lparr>chainId = ''10'', assetId = ''0x7F5c764cBc14f9669B88837ca1490cCa17c31607'',
       symbol = ''USDC'', decimals = 6\<rparr>,
      \<lparr>chainId = ''56'', assetId = ''0x8AC76a51cc950d9822D68b83fE1Ad97B32Cd580d'',
       symbol = ''USDC'', decimals = 18\<rparr>,
      \<lparr>chainId = ''250'', assetId = ''0x04068DA6C83AFCFA0e13ba15A6696662335D5B75'',
       symbol = ''USDC'', decimals = 6\<rparr>]"

text \<open>One asset record per entry of \<^verbatim>\<open>asset.addresses\<close>, in order.\<close>

definition flattenAsset :: "AxelarAsset \<Rightarrow> Asset list" where
  "flattenAsset a =
     (case ax_addresses a of
        None \<Rightarrow> []
      | Some entries \<Rightarrow>
          map (\<lambda>(chain, address).
                 \<lparr>chainId = chain, assetId = address,
                  symbol = (if ax_symbol a \<noteq> [] then ax_symbol a else ax_denom a),
                  decimals = (if ax_decimals a \<noteq> 0 then ax_decimals a else 18)\<rparr>)
              entries)"

definition fallbackListedAssets :: "int \<Rightarrow> ListedAssets" where
  "fallbackListedAssets now = \<lparr>assets = getFallbackAssets, assets_measuredAt = now\<rparr>"

definition getListedAssets ::
  "'u Env \<Rightarrow> 'u Service \<Rightarrow> (error + ListedAssets) \<times> 'u Service" where
  "getListedAssets env s =
     (let (cached, ac) = TTLCache_get (dateNow env (upstream s)) ''all-assets'' (assetCache s);
          s0 = s\<lparr>assetCache := ac\<rparr>
      in case cached of
           Some c \<Rightarrow> (Inr c, s0)
         | None \<Rightarrow>
             (case fetchWithTimeout env ChainsRequest s0 of
                (Inl e, s1) \<Rightarrow> (Inr (fallbackListedAssets (dateNow env (upstream s1))), s1)
              | (Inr chainsResponse, s1) \<Rightarrow>
                  if \<not> ok chainsResponse \<or> json chainsResponse = None
                  then (Inr (fallbackListedAssets (dateNow env (upstream s1))), s1)
                  else (case fetchWithTimeout env AssetsRequest s1 of
                          (Inl e, s2) \<Rightarrow>
                            (Inr (fallbackListedAssets (dateNow env (upstream s2))), s2)
                        | (Inr assetsResponse, s2) \<Rightarrow>
                            if \<not> ok assetsResponse
                            then (Inr (fallbackListedAssets (dateNow env (upstream s2))), s2)
                            else (case json assetsResponse of
                                    None \<Rightarrow>
                                      (Inr (fallbackListedAssets (dateNow env (upstream s2))), s2)
                                  | Some body \<Rightarrow>
                                      (let found = (case data body of
                                                      DataAssets xs \<Rightarrow> concat (map flattenAsset xs)
                                                    | _ \<Rightarrow> []);
                                           now = dateNow env (upstream s2);
                                           result =
                                             \<lparr>assets = (if found \<noteq> [] then found
                                                        else getFallbackAssets),
                                              assets_measuredAt = now\<rparr>
                                       in (Inr result,
                                           s2\<lparr>assetCache :=
                                                TTLCache_set now ''all-assets'' result
                                                  (assetCache s2)\<rparr>))))))"

definition getListedAssetsWithRetry ::
  "'u Env \<Rightarrow> 'u Service \<Rightarrow> (error + ListedAssets) \<times> 'u Service" where
  "getListedAssetsWithRetry env s =
     (case retryOperation (random env) (getListedAssets env) s of
        (result, delays, s1) \<Rightarrow> (result, s1))"

section \<open>Snapshot\<close>

record SnapshotParams =
  routes :: "Route list"
  notionals :: "real list"
  includeWindows :: "Window list option"

text \<open>The \<^verbatim>\<open>catch\<close> of \<^verbatim>\<open>Effect.tryPromise\<close> in \<^verbatim>\<open>getSnapshot\<close>.\<close>

definition snapshotError :: "error \<Rightarrow> error" where
  "snapshotError e =
     (if instanceofAxelarAPIError e then Error ''Axelar API error''
      else Error ''Failed to fetch snapshot'')"

text \<open>
  \<^verbatim>\<open>getSnapshot\<close>. \<^verbatim>\<open>Promise.all\<close> starts the four sub-pipelines together and their steps
  interleave at each \<^verbatim>\<open>await\<close>; here they run to completion one after the other, in the
  order of the array, on the shared state. \<^verbatim>\<open>params.includeWindows || ["24h"]\<close> replaces
  only a missing list: an empty array is truthy.
\<close>

definition getSnapshot ::
  "'u Env \<Rightarrow> SnapshotParams \<Rightarrow> 'u Service \<Rightarrow> (error + ProviderSnapshot) \<times> 'u Service" where
  "getSnapshot env params s =
     (let windows = (case includeWindows params of Some ws \<Rightarrow> ws | None \<Rightarrow> [W24h]);
          (rv, s1) = getVolumesWithRetry env windows s;
          (rr, s2) = getRatesWithRetry env (routes params) (notionals params) s1;
          (rl, s3) = getLiquidityDepthWithRetry env (routes params) s2;
          (ra, s4) = getListedAssetsWithRetry env s3
      in case rv of
           Inl e \<Rightarrow> (Inl (snapshotError e), countError s4)
         | Inr v \<Rightarrow>
             (case rr of
                Inl e \<Rightarrow> (Inl (snapshotError e), countError s4)
              | Inr r \<Rightarrow>
                  (case rl of
                     Inl e \<Rightarrow> (Inl (snapshotError e), countError s4)
                   | Inr l \<Rightarrow>
                       (case ra of
                          Inl e \<Rightarrow> (Inl (snapshotError e), countError s4)
                        | Inr a \<Rightarrow>
                            (Inr \<lparr>volumes = v, rates = r, liquidity = l, listedAssets = a\<rparr>,
                             s4)))))"

section \<open>Outage of the upstream services\<close>

text \<open>
  The outcomes of \<^verbatim>\<open>fetch\<close> on which \<^verbatim>\<open>fetchWithTimeout\<close> throws one of its classified
  errors: a timeout, a transport failure, an HTTP 429, or a status of 400 and above. The
  upstream services are down when every request, in every state of the outside world,
  has such an outcome.
\<close>

definition failedOutcome :: "FetchOutcome \<Rightarrow> bool" where
  "failedOutcome outcome =
     (case outcome of
        Responded response \<Rightarrow> status response = 429 \<or> (\<not> ok response \<and> status response \<ge> 400)
      | AbortError \<Rightarrow> True
      | NetworkFailure \<Rightarrow> True)"

definition upstreamDown :: "'u Env \<Rightarrow> bool" where
  "upstreamDown env = (\<forall>request u. failedOutcome (fst (fetch env request u)))"

section \<open>Concrete inputs\<close>

text \<open>
  Operations on a world that is the clock reading: one that always fails with a
  retryable HTTP 503, and one that succeeds and takes a millisecond.
\<close>

definition downOp :: "int \<Rightarrow> (error + nat) \<times> int" where
  "downOp t = (Inl (AxelarAPIError 503 True), t)"

definition upOp :: "int \<Rightarrow> (error + nat) \<times> int" where
  "upOp t = (Inr 42, t + 1)"

text \<open>
  The breaker after three failures at time 0 (threshold 3, reset timeout 1000), and an
  operation for the retry coordinator that calls \<open>upOp\<close> through that breaker at time 500:
  its world is the breaker and the number of attempts the coordinator has made.
\<close>

definition openBreaker :: CircuitBreaker where
  "openBreaker =
     \<lparr>failures = 3, lastFailureTime = 0, state = OPEN, failureThreshold = 3,
      resetTimeoutMs = 1000\<rparr>"

definition guardedOp :: "CircuitBreaker \<times> nat \<Rightarrow> (error + nat) \<times> (CircuitBreaker \<times> nat)" where
  "guardedOp w =
     (case execute (\<lambda>t. t) upOp (fst w, 500) of
        (result, cb, t) \<Rightarrow> (result, (cb, snd w + 1)))"

text \<open>
  Operations whose world counts their invocations: one that is always refused with
  HTTP 404, and one that is rate limited once, with a wait of 5000 ms, and then succeeds.
\<close>

definition rejectedOp :: "nat \<Rightarrow> (error + nat) \<times> nat" where
  "rejectedOp k = (Inl (AxelarAPIError 404 False), k + 1)"

definition limitedOp :: "nat \<Rightarrow> (error + nat) \<times> nat" where
  "limitedOp k = (if k = 0 then Inl (RateLimitError 5000) else Inr 7, k + 1)"

text \<open>
  Outside worlds that are the clock reading: one where every request times out after
  30 s, one where every request is answered with an empty HTTP 200 after 120 ms, and one
  where every request fails in transport after 10 ms.
\<close>

definition timeoutEnv :: "int Env" where
  "timeoutEnv =
     \<lparr>dateNow = (\<lambda>u. u), fetch = (\<lambda>request u. (AbortError, u + 30000)), random = (\<lambda>i. 0)\<rparr>"

definition answeringEnv :: "int Env" where
  "answeringEnv =
     \<lparr>dateNow = (\<lambda>u. u),
      fetch = (\<lambda>request u. (Responded \<lparr>status = 200, retry_after = None, json = None\<rparr>, u + 120)),
      random = (\<lambda>i. 0)\<rparr>"

definition downEnv :: "int Env" where
  "downEnv =
     \<lparr>dateNow = (\<lambda>u. u), fetch = (\<lambda>request u. (NetworkFailure, u + 10)), random = (\<lambda>i. 0)\<rparr>"

text \<open>
  USDC on Ethereum (6 decimals) and on BNB Smart Chain (18 decimals), both entries of the
  service's fallback asset list, and an outside world whose every answer is an HTTP 200
  with a JSON object that has none of the fields the service reads.
\<close>

definition ethUsdc :: Asset where
  "ethUsdc =
     \<lparr>chainId = ''1'', assetId = ''0xA0b86991c6218b36c1d19D4a2e9Eb0cE3606eB48'',
      symbol = ''USDC'', decimals = 6\<rparr>"

definition bscUsdc :: Asset where
  "bscUsdc =
     \<lparr>chainId = ''56'', assetId = ''0x8AC76a51cc950d9822D68b83fE1Ad97B32Cd580d'',
      symbol = ''USDC'', decimals = 18\<rparr>"

definition emptyBody :: JsonBody where
  "emptyBody =
     \<lparr>data = DataOther, pagination_next_cursor = None, next_cursor = None,
      usd = (\<lambda>address. None)\<rparr>"

definition quotingEnv :: "int Env" where
  "quotingEnv =
     \<lparr>dateNow = (\<lambda>u. u),
      fetch = (\<lambda>request u.
                 (Responded \<lparr>status = 200, retry_after = None, json = Some emptyBody\<rparr>, u + 120)),
      random = (\<lambda>i. 0)\<rparr>"

text \<open>
  The scenario of an outage: one route from USDC on Ethereum to USDC on Polygon, two
  notionals (1 and 1000 USDC), the windows 24h and 7d; and a request without windows.
\<close>

definition polygonUsdc :: Asset where
  "polygonUsdc =
     \<lparr>chainId = ''137'', assetId = ''0x2791Bca1f2de4661ED88A30C99A7a9449Aa84174'',
      symbol = ''USDC'', decimals = 6\<rparr>"

definition outageParams :: SnapshotParams where
  "outageParams =
     \<lparr>routes = [\<lparr>source = ethUsdc, destination = polygonUsdc\<rparr>],
      notionals = [1000000, 1000000000],
      includeWindows = Some [W24h, W7d]\<rparr>"

definition defaultParams :: SnapshotParams where
  "defaultParams =
     \<lparr>routes = [\<lparr>source = ethUsdc, destination = polygonUsdc\<rparr>],
      notionals = [1000000],
      includeWindows = None\<rparr>"

section \<open>Properties of the TTL cache\<close>

text \<open>
  Claim C9. For a key stored in the cache, \<open>get\<close> returns the stored value when the clock
  is not past the entry's expiry, and returns a miss and deletes the entry when the clock
  is strictly past it; every \<open>get\<close> increments exactly one of the hit and miss counters
  by one; \<open>set\<close> stores the value with expiry \<open>now + ttl\<close> and access counter zero.
\<close>

theorem TTLCache_get_set_spec:
  "(store c key = Some e \<and> now \<le> expiresAt e \<longrightarrow>
      fst (TTLCache_get now key c) = Some (entry_value e)
      \<and> hits (snd (TTLCache_get now key c)) = hits c + 1
      \<and> misses (snd (TTLCache_get now key c)) = misses c)
   \<and> (store c key = Some e \<and> now > expiresAt e \<longrightarrow>
      fst (TTLCache_get now key c) = None
      \<and> store (snd (TTLCache_get now key c)) key = None
      \<and> hits (snd (TTLCache_get now key c)) = hits c
      \<and> misses (snd (TTLCache_get now key c)) = misses c + 1)
   \<and> (store c key = None \<longrightarrow>
      fst (TTLCache_get now key c) = None
      \<and> hits (snd (TTLCache_get now key c)) = hits c
      \<and> misses (snd (TTLCache_get now key c)) = misses c + 1)
   \<and> store (TTLCache_set now key v c) key
        = Some \<lparr>entry_value = v, expiresAt = now + ttlMs c, accessCount = 0\<rparr>
   \<and> fst (TTLCache_get t key (TTLCache_set now key v c))
        = (if t > now + ttlMs c then None else Some v)"
  by (auto simp: TTLCache_get_def TTLCache_set_def)

theorem TTLCache_get_set_spec_witness:
  "fst (TTLCache_get 50 ''k'' (TTLCache_set 0 ''k'' (7::nat) (newTTLCache 100))) = Some 7
   \<and> fst (TTLCache_get 150 ''k'' (TTLCache_set 0 ''k'' (7::nat) (newTTLCache 100))) = None
   \<and> fst (TTLCache_get 100 ''k'' (TTLCache_set 0 ''k'' (7::nat) (newTTLCache 100))) = Some 7
   \<and> store (snd (TTLCache_get 150 ''k'' (TTLCache_set 0 ''k'' (7::nat) (newTTLCache 100)))) ''k''
        = None
   \<and> misses (snd (TTLCache_get 150 ''k'' (TTLCache_set 0 ''k'' (7::nat) (newTTLCache 100)))) = 1
   \<and> hits (snd (TTLCache_get 50 ''k'' (TTLCache_set 0 ''k'' (7::nat) (newTTLCache 100)))) = 1"
  using TTLCache_get_set_spec
    [where c = "TTLCache_set 0 ''k'' (7::nat) (newTTLCache 100)" and key = "''k''"
       and e = "\<lparr>entry_value = 7, expiresAt = 100, accessCount = 0\<rparr>" and now = 50]
    TTLCache_get_set_spec
    [where c = "TTLCache_set 0 ''k'' (7::nat) (newTTLCache 100)" and key = "''k''"
       and e = "\<lparr>entry_value = 7, expiresAt = 100, accessCount = 0\<rparr>" and now = 150]
    TTLCache_get_set_spec
    [where c = "TTLCache_set 0 ''k'' (7::nat) (newTTLCache 100)" and key = "''k''"
       and e = "\<lparr>entry_value = 7, expiresAt = 100, accessCount = 0\<rparr>" and now = 100]
  by (simp add: TTLCache_set_def newTTLCache_def)

section \<open>Properties of the circuit breaker\<close>

lemma onFailure_simps:
  "failures (onFailure now cb) = failures cb + 1"
  "lastFailureTime (onFailure now cb) = now"
  "failureThreshold (onFailure now cb) = failureThreshold cb"
  "resetTimeoutMs (onFailure now cb) = resetTimeoutMs cb"
  "state (onFailure now cb) = (if failures cb + 1 \<ge> failureThreshold cb then OPEN else state cb)"
  by (simp_all add: onFailure_def Let_def)

lemma execute_closed_failure:
  assumes "state cb = CLOSED" and "fst (fn w) = Inl e"
  shows "execute clock fn (cb, w) = (Inl e, onFailure (clock (snd (fn w))) cb, snd (fn w))"
  using assms by (cases "fn w") (simp add: execute_def execute_admit_def)

lemma executeMany_failures:
  assumes fails: "\<forall>w. isl (fst (fn w))"
  shows "state cb = CLOSED \<Longrightarrow> failures cb + n < failureThreshold cb \<Longrightarrow>
         state (fst (executeMany clock fn n (cb, w))) = CLOSED
         \<and> failures (fst (executeMany clock fn n (cb, w))) = failures cb + n
         \<and> failureThreshold (fst (executeMany clock fn n (cb, w))) = failureThreshold cb"
proof (induction n arbitrary: cb w)
  case 0
  then show ?case by simp
next
  case (Suc n)
  from fails obtain e where e: "fst (fn w) = Inl e"
    by (metis isl_def)
  have ex: "execute clock fn (cb, w) = (Inl e, onFailure (clock (snd (fn w))) cb, snd (fn w))"
    using Suc.prems(1) e by (rule execute_closed_failure)
  let ?cb = "onFailure (clock (snd (fn w))) cb"
  have st: "state ?cb = CLOSED" using Suc.prems by (simp add: onFailure_simps)
  have lt: "failures ?cb + n < failureThreshold ?cb" using Suc.prems by (simp add: onFailure_simps)
  show ?case using Suc.IH [OF st lt, of "snd (fn w)"] by (simp add: ex onFailure_simps)
qed

lemma newCircuitBreaker_simps:
  "failures (newCircuitBreaker thr rt) = 0"
  "lastFailureTime (newCircuitBreaker thr rt) = 0"
  "state (newCircuitBreaker thr rt) = CLOSED"
  "failureThreshold (newCircuitBreaker thr rt) = thr"
  "resetTimeoutMs (newCircuitBreaker thr rt) = rt"
  by (simp_all add: newCircuitBreaker_def)

lemma executeMany_snoc:
  "executeMany clock fn (Suc n) cbw = snd (execute clock fn (executeMany clock fn n cbw))"
  by (induction n arbitrary: cbw) simp_all

lemma executeMany_opens:
  assumes fails: "\<forall>w. isl (fst (fn w))" and thr: "0 < thr"
  shows "state (fst (executeMany clock fn thr (newCircuitBreaker thr rt, w))) = OPEN
         \<and> failures (fst (executeMany clock fn thr (newCircuitBreaker thr rt, w))) = thr"
proof -
  obtain m where m: "thr = Suc m" using thr by (cases thr) auto
  let ?cb0 = "newCircuitBreaker thr rt"
  obtain cb v where run: "executeMany clock fn m (?cb0, w) = (cb, v)"
    by (cases "executeMany clock fn m (?cb0, w)")
  have "state ?cb0 = CLOSED" "failures ?cb0 + m < failureThreshold ?cb0"
    by (simp_all add: newCircuitBreaker_simps m)
  from executeMany_failures [OF fails this, of clock w]
  have cb: "state cb = CLOSED" "failures cb = m" "failureThreshold cb = thr"
    by (simp_all add: run newCircuitBreaker_simps)
  from fails obtain e where e: "fst (fn v) = Inl e" by (metis isl_def)
  have "execute clock fn (cb, v) = (Inl e, onFailure (clock (snd (fn v))) cb, snd (fn v))"
    using cb(1) e by (rule execute_closed_failure)
  then show ?thesis
    using cb run by (simp add: m executeMany_snoc onFailure_simps del: executeMany.simps)
qed

text \<open>
  Claim C2, as the code has it. A breaker that starts \<open>CLOSED\<close> with failure count 0 and a
  threshold of at least one stays \<open>CLOSED\<close> while fewer than \<open>failureThreshold\<close> consecutive
  calls have failed, and is \<open>OPEN\<close> after the call that brings the count to the threshold.
  While \<open>OPEN\<close>, a call at a time with \<open>now - lastFailureTime \<le> resetTimeout\<close> fails fast:
  the wrapped operation is not invoked and nothing changes. A call with
  \<open>now - lastFailureTime > resetTimeout\<close> moves the breaker to \<open>HALF_OPEN\<close> and runs the
  operation, and a success in \<open>HALF_OPEN\<close> returns the breaker to \<open>CLOSED\<close> with count 0.
  A success while \<open>CLOSED\<close> resets the count to 0 as well: the count is of consecutive
  failures.
\<close>

theorem CircuitBreaker_state_machine:
  assumes thr: "0 < thr" and fails: "\<forall>w. isl (fst (fn w))"
  shows "(n < thr \<longrightarrow>
            state (fst (executeMany clock fn n (newCircuitBreaker thr rt, w))) = CLOSED
          \<and> failures (fst (executeMany clock fn n (newCircuitBreaker thr rt, w))) = n)
       \<and> state (fst (executeMany clock fn thr (newCircuitBreaker thr rt, w))) = OPEN
       \<and> failures (fst (executeMany clock fn thr (newCircuitBreaker thr rt, w))) = thr
       \<and> (state cb = OPEN \<and> clock v - lastFailureTime cb \<le> resetTimeoutMs cb \<longrightarrow>
            execute clock g (cb, v) = (Inl (Error ''Circuit breaker is OPEN''), cb, v))
       \<and> (state cb = OPEN \<and> clock v - lastFailureTime cb > resetTimeoutMs cb \<longrightarrow>
            execute_admit (clock v) cb = Inr (cb\<lparr>state := HALF_OPEN\<rparr>)
          \<and> fst (execute clock g (cb, v)) = fst (g v)
          \<and> snd (snd (execute clock g (cb, v))) = snd (g v))
       \<and> (state cb = HALF_OPEN \<and> fst (g v) = Inr r \<longrightarrow>
            state (fst (snd (execute clock g (cb, v)))) = CLOSED
          \<and> failures (fst (snd (execute clock g (cb, v)))) = 0)
       \<and> (state cb = OPEN \<and> clock v - lastFailureTime cb > resetTimeoutMs cb
            \<and> fst (g v) = Inr r \<longrightarrow>
            state (fst (snd (execute clock g (cb, v)))) = CLOSED
          \<and> failures (fst (snd (execute clock g (cb, v)))) = 0)
       \<and> (state cb = CLOSED \<and> fst (g v) = Inr r \<longrightarrow>
            state (fst (snd (execute clock g (cb, v)))) = CLOSED
          \<and> failures (fst (snd (execute clock g (cb, v)))) = 0)"
proof -
  have closed: "n < thr \<longrightarrow>
            state (fst (executeMany clock fn n (newCircuitBreaker thr rt, w))) = CLOSED
          \<and> failures (fst (executeMany clock fn n (newCircuitBreaker thr rt, w))) = n"
    using executeMany_failures [OF fails, of "newCircuitBreaker thr rt" n clock w]
    by (simp add: newCircuitBreaker_simps)
  have fast: "state cb = OPEN \<and> clock v - lastFailureTime cb \<le> resetTimeoutMs cb \<longrightarrow>
            execute clock g (cb, v) = (Inl (Error ''Circuit breaker is OPEN''), cb, v)"
    by (simp add: execute_def execute_admit_def)
  have half: "state cb = OPEN \<and> clock v - lastFailureTime cb > resetTimeoutMs cb \<longrightarrow>
            execute_admit (clock v) cb = Inr (cb\<lparr>state := HALF_OPEN\<rparr>)
          \<and> fst (execute clock g (cb, v)) = fst (g v)
          \<and> snd (snd (execute clock g (cb, v))) = snd (g v)"
    by (cases "g v") (auto simp: execute_def execute_admit_def split: sum.splits)
  have recover: "state cb = HALF_OPEN \<and> fst (g v) = Inr r \<longrightarrow>
            state (fst (snd (execute clock g (cb, v)))) = CLOSED
          \<and> failures (fst (snd (execute clock g (cb, v)))) = 0"
    by (cases "g v") (auto simp: execute_def execute_admit_def onSuccess_def)
  have reopen: "state cb = OPEN \<and> clock v - lastFailureTime cb > resetTimeoutMs cb
            \<and> fst (g v) = Inr r \<longrightarrow>
            state (fst (snd (execute clock g (cb, v)))) = CLOSED
          \<and> failures (fst (snd (execute clock g (cb, v)))) = 0"
    by (cases "g v") (auto simp: execute_def execute_admit_def onSuccess_def)
  have reset: "state cb = CLOSED \<and> fst (g v) = Inr r \<longrightarrow>
            state (fst (snd (execute clock g (cb, v)))) = CLOSED
          \<and> failures (fst (snd (execute clock g (cb, v)))) = 0"
    by (cases "g v") (auto simp: execute_def execute_admit_def onSuccess_def)
  show ?thesis
    using closed executeMany_opens [OF fails thr, of clock rt w] fast half recover reopen reset
    by blast
qed

lemma tripped: "executeMany (\<lambda>t. t) downOp 3 (newCircuitBreaker 3 1000, 0)
   = (\<lparr>failures = 3, lastFailureTime = 0, state = OPEN, failureThreshold = 3, resetTimeoutMs = 1000\<rparr>, 0)"
  by (simp add: eval_nat_numeral execute_def execute_admit_def downOp_def newCircuitBreaker_def onFailure_def)

text \<open>
  At \<open>now - lastFailureTime = resetTimeout\<close> the breaker still fails fast: three failures
  at time 0 open a breaker with \<open>resetTimeout = 1000\<close>, and the call at time 1000 is
  refused without running the operation.
\<close>

theorem CircuitBreaker_boundary_counterexample:
  "fst (executeMany (\<lambda>t. t) downOp 3 (newCircuitBreaker 3 1000, 0))
     = \<lparr>failures = 3, lastFailureTime = 0, state = OPEN, failureThreshold = 3, resetTimeoutMs = 1000\<rparr>
   \<and> (1000::int) - 0 \<ge> 1000
   \<and> execute (\<lambda>t. t) upOp (fst (executeMany (\<lambda>t. t) downOp 3 (newCircuitBreaker 3 1000, 0)), 1000)
       = (Inl (Error ''Circuit breaker is OPEN''),
          \<lparr>failures = 3, lastFailureTime = 0, state = OPEN, failureThreshold = 3, resetTimeoutMs = 1000\<rparr>,
          1000)"
  by (simp add: tripped execute_def execute_admit_def)

theorem CircuitBreaker_state_machine_witness:
  "state (fst (executeMany (\<lambda>t. t) downOp 2 (newCircuitBreaker 3 1000, 0))) = CLOSED
   \<and> state (fst (executeMany (\<lambda>t. t) downOp 3 (newCircuitBreaker 3 1000, 0))) = OPEN
   \<and> execute (\<lambda>t. t) upOp (fst (executeMany (\<lambda>t. t) downOp 3 (newCircuitBreaker 3 1000, 0)), 500)
       = (Inl (Error ''Circuit breaker is OPEN''),
          fst (executeMany (\<lambda>t. t) downOp 3 (newCircuitBreaker 3 1000, 0)), 500)
   \<and> fst (execute (\<lambda>t. t) upOp
            (fst (executeMany (\<lambda>t. t) downOp 3 (newCircuitBreaker 3 1000, 0)), 1001)) = Inr 42
   \<and> state (fst (snd (execute (\<lambda>t. t) upOp
            (fst (executeMany (\<lambda>t. t) downOp 3 (newCircuitBreaker 3 1000, 0)), 1001)))) = CLOSED
   \<and> failures (fst (snd (execute (\<lambda>t. t) upOp
            (fst (executeMany (\<lambda>t. t) downOp 3 (newCircuitBreaker 3 1000, 0)), 1001)))) = 0"
proof -
  have thr: "0 < (3::nat)" by simp
  have fails: "\<forall>w. isl (fst (downOp w))" by (simp add: downOp_def)
  note sm = CircuitBreaker_state_machine [OF thr fails, where clock = "\<lambda>t. t" and rt = 1000
      and w = 0 and g = upOp and r = 42
      and cb = "fst (executeMany (\<lambda>t. t) downOp 3 (newCircuitBreaker 3 1000, 0))"]
  show ?thesis
    using sm [where n = 2 and v = 500] sm [where n = 2 and v = 1001]
    by (simp add: tripped upOp_def)
qed

section \<open>Properties of the retry coordinator\<close>

lemma retryLoop_delays_extend:
  "\<exists>ext. fst (snd (retryLoop rnd operation attempt lastError delays w)) = delays @ ext"
proof (induction rnd operation attempt lastError delays w rule: retryLoop.induct)
  case (1 rnd operation attempt lastError delays w)
  show ?case
  proof (cases "attempt < maxRetries")
    case False
    then show ?thesis by (simp add: retryLoop.simps [of _ _ attempt] split: option.splits)
  next
    case True
    obtain res w' where op: "operation w = (res, w')" by (cases "operation w")
    show ?thesis
    proof (cases res)
      case (Inr r)
      with True op show ?thesis by (simp add: retryLoop.simps [of _ _ attempt])
    next
      case (Inl e)
      show ?thesis
      proof (cases "instanceofAxelarAPIError e \<and> \<not> retryable e")
        case True
        with \<open>attempt < maxRetries\<close> op Inl show ?thesis
          by (simp add: retryLoop.simps [of _ _ attempt])
      next
        case nr: False
        show ?thesis
        proof (cases "attempt < maxRetries - 1")
          case True
          from "1.IH"(1) [OF \<open>attempt < maxRetries\<close> op [symmetric] Inl nr True]
          obtain ext where
            "fst (snd (retryLoop rnd operation (attempt + 1) (Some e)
                         (delays @ [retryDelay attempt (rnd attempt) e]) w'))
               = (delays @ [retryDelay attempt (rnd attempt) e]) @ ext"
            by auto
          with \<open>attempt < maxRetries\<close> op Inl nr True show ?thesis
            by (simp add: retryLoop.simps [of _ _ attempt])
        next
          case False
          from "1.IH"(2) [OF \<open>attempt < maxRetries\<close> op [symmetric] Inl nr False]
          obtain ext where
            "fst (snd (retryLoop rnd operation (attempt + 1) (Some e) delays w')) = delays @ ext"
            by auto
          with \<open>attempt < maxRetries\<close> op Inl nr False show ?thesis
            by (simp add: retryLoop.simps [of _ _ attempt])
        qed
      qed
    qed
  qed
qed

lemma retryLoop_next_delay:
  assumes "attempt < maxRetries - 1" and "operation w = (Inl e, w')"
    and "\<not> (instanceofAxelarAPIError e \<and> \<not> retryable e)"
  shows "length delays < length (fst (snd (retryLoop rnd operation attempt lastError delays w)))
       \<and> fst (snd (retryLoop rnd operation attempt lastError delays w)) ! length delays
           = retryDelay attempt (rnd attempt) e"
proof -
  have lt: "attempt < maxRetries" using assms(1) by simp
  have unfold: "retryLoop rnd operation attempt lastError delays w
      = retryLoop rnd operation (attempt + 1) (Some e)
          (delays @ [retryDelay attempt (rnd attempt) e]) w'"
    using assms lt by (auto simp: retryLoop.simps [of _ _ attempt])
  obtain ext where
    "fst (snd (retryLoop rnd operation (attempt + 1) (Some e)
                 (delays @ [retryDelay attempt (rnd attempt) e]) w'))
       = (delays @ [retryDelay attempt (rnd attempt) e]) @ ext"
    using retryLoop_delays_extend
      [of rnd operation "attempt + 1" "Some e" "delays @ [retryDelay attempt (rnd attempt) e]" w']
    by auto
  then show ?thesis by (simp add: unfold nth_append)
qed

text \<open>
  Claim C5, as the code has it. When an attempt fails with an \<open>AxelarAPIError\<close> whose
  \<open>retryable\<close> flag is false, the coordinator stops at once: it returns that error, sleeps
  no more, and the world is the one that attempt left. The fetcher produces such an error
  for an HTTP status from 400 to 499 other than 429. The error of an open circuit breaker
  is a plain \<open>Error\<close>; when it is not the last attempt the coordinator sleeps for the
  backoff delay and tries again.
\<close>

theorem retryOperation_non_retryable:
  "(attempt < maxRetries \<and> operation w = (Inl (AxelarAPIError sc False), w') \<longrightarrow>
      retryLoop rnd operation attempt lastError delays w
        = (Inl (AxelarAPIError sc False), delays, w'))
   \<and> (operation w = (Inl (AxelarAPIError sc False), w') \<longrightarrow>
      retryOperation rnd operation w = (Inl (AxelarAPIError sc False), [], w'))
   \<and> (fetch env request (upstream s) = (Responded response, u')
        \<and> 400 \<le> status response \<and> status response \<le> 499 \<and> status response \<noteq> 429 \<longrightarrow>
      fst (fetchWithTimeout env request s) = Inl (AxelarAPIError (status response) False))
   \<and> (attempt < maxRetries - 1 \<and> operation w = (Inl (Error m), w') \<longrightarrow>
      retryLoop rnd operation attempt lastError delays w
        = retryLoop rnd operation (attempt + 1) (Some (Error m))
            (delays @ [retryDelayMs * 2 ^ attempt + \<lfloor>rnd attempt * 250\<rfloor>]) w')"
proof -
  have a: "attempt < maxRetries \<and> operation w = (Inl (AxelarAPIError sc False), w') \<longrightarrow>
      retryLoop rnd operation attempt lastError delays w
        = (Inl (AxelarAPIError sc False), delays, w')"
    by (simp add: retryLoop.simps [of _ _ attempt])
  have b: "operation w = (Inl (AxelarAPIError sc False), w') \<longrightarrow>
      retryOperation rnd operation w = (Inl (AxelarAPIError sc False), [], w')"
    by (simp add: retryOperation_def retryLoop.simps [of _ _ 0] maxRetries_def)
  have c: "fetch env request (upstream s) = (Responded response, u')
        \<and> 400 \<le> status response \<and> status response \<le> 499 \<and> status response \<noteq> 429 \<longrightarrow>
      fst (fetchWithTimeout env request s) = Inl (AxelarAPIError (status response) False)"
    by (simp add: fetchWithTimeout_def Let_def ok_def)
  have d: "attempt < maxRetries - 1 \<and> operation w = (Inl (Error m), w') \<longrightarrow>
      retryLoop rnd operation attempt lastError delays w
        = retryLoop rnd operation (attempt + 1) (Some (Error m))
            (delays @ [retryDelayMs * 2 ^ attempt + \<lfloor>rnd attempt * 250\<rfloor>]) w'"
    by (auto simp: retryLoop.simps [of _ _ attempt] retryDelay_def Let_def)
  from a b c d show ?thesis by blast
qed

theorem retryOperation_non_retryable_witness:
  "retryOperation (\<lambda>i. 0) rejectedOp 0 = (Inl (AxelarAPIError 404 False), [], 1)"
proof -
  have "rejectedOp 0 = (Inl (AxelarAPIError 404 False), 1)"
    by (simp add: rejectedOp_def)
  then show ?thesis
    by (rule retryOperation_non_retryable [THEN conjunct2, THEN conjunct1, rule_format])
qed

text \<open>
  An open breaker refuses every attempt with its plain \<open>Error\<close>, and the coordinator makes
  all three attempts, sleeping 1000 ms and 2000 ms in between.
\<close>

theorem retryOperation_circuit_open_counterexample:
  "retryOperation (\<lambda>i. 0) guardedOp (openBreaker, 0)
     = (Inl (Error ''Circuit breaker is OPEN''), [1000, 2000], (openBreaker, 3))"
proof -
  have step: "guardedOp (openBreaker, k) = (Inl (Error ''Circuit breaker is OPEN''), (openBreaker, k + 1))"
    for k
    by (simp add: guardedOp_def execute_def execute_admit_def openBreaker_def)
  show ?thesis
    by (simp add: retryOperation_def retryLoop.simps [of _ guardedOp] step maxRetries_def
        retryDelay_def retryDelayMs_def)
qed

text \<open>
  Claim C8. When an attempt that is not the last one fails with a \<open>RateLimitError\<close>, the
  next delay passed to \<^verbatim>\<open>setTimeout\<close> is exactly its \<open>retryAfterMs\<close>; for any other error
  that is retried it is \<open>retryDelayMs * 2 ^ attempt + \<lfloor>random * 250\<rfloor>\<close>. The fetcher
  builds the \<open>RateLimitError\<close> of an HTTP 429 from the \<^verbatim>\<open>retry-after\<close> header, in seconds.
\<close>

theorem retryOperation_rate_limit_delay:
  "(attempt < maxRetries - 1 \<and> operation w = (Inl (RateLimitError ms), w') \<longrightarrow>
      length delays < length (fst (snd (retryLoop rnd operation attempt lastError delays w)))
      \<and> fst (snd (retryLoop rnd operation attempt lastError delays w)) ! length delays = ms)
   \<and> (attempt < maxRetries - 1 \<and> operation w = (Inl e, w')
        \<and> (\<forall>x. e \<noteq> RateLimitError x) \<and> (instanceofAxelarAPIError e \<longrightarrow> retryable e) \<longrightarrow>
      length delays < length (fst (snd (retryLoop rnd operation attempt lastError delays w)))
      \<and> fst (snd (retryLoop rnd operation attempt lastError delays w)) ! length delays
          = retryDelayMs * 2 ^ attempt + \<lfloor>rnd attempt * 250\<rfloor>)
   \<and> (fetch env request (upstream s) = (Responded response, u')
        \<and> status response = 429 \<and> retry_after response = Some seconds \<longrightarrow>
      fst (fetchWithTimeout env request s) = Inl (RateLimitError (seconds * 1000)))"
proof -
  have a: "attempt < maxRetries - 1 \<and> operation w = (Inl (RateLimitError ms), w') \<longrightarrow>
      length delays < length (fst (snd (retryLoop rnd operation attempt lastError delays w)))
      \<and> fst (snd (retryLoop rnd operation attempt lastError delays w)) ! length delays = ms"
    using retryLoop_next_delay [of attempt operation w "RateLimitError ms" w' delays rnd lastError]
    by (simp add: retryDelay_def)
  have b: "attempt < maxRetries - 1 \<and> operation w = (Inl e, w')
        \<and> (\<forall>x. e \<noteq> RateLimitError x) \<and> (instanceofAxelarAPIError e \<longrightarrow> retryable e) \<longrightarrow>
      length delays < length (fst (snd (retryLoop rnd operation attempt lastError delays w)))
      \<and> fst (snd (retryLoop rnd operation attempt lastError delays w)) ! length delays
          = retryDelayMs * 2 ^ attempt + \<lfloor>rnd attempt * 250\<rfloor>"
    using retryLoop_next_delay [of attempt operation w e w' delays rnd lastError]
    by (cases e) (auto simp: retryDelay_def Let_def)
  have c: "fetch env request (upstream s) = (Responded response, u')
        \<and> status response = 429 \<and> retry_after response = Some seconds \<longrightarrow>
      fst (fetchWithTimeout env request s) = Inl (RateLimitError (seconds * 1000))"
    by (simp add: fetchWithTimeout_def Let_def)
  from a b c show ?thesis by blast
qed

theorem retryOperation_rate_limit_delay_witness:
  "fst (snd (retryOperation (\<lambda>i. 1 / 2) limitedOp 0)) ! 0 = 5000
   \<and> retryOperation (\<lambda>i. 1 / 2) limitedOp 0 = (Inr 7, [5000], 2)"
proof -
  have "0 < maxRetries - 1 \<and> limitedOp 0 = (Inl (RateLimitError 5000), 1)"
    by (simp add: maxRetries_def limitedOp_def)
  then have "length ([]::int list)
        < length (fst (snd (retryLoop (\<lambda>i. 1 / 2) limitedOp 0 None [] 0)))
      \<and> fst (snd (retryLoop (\<lambda>i. 1 / 2) limitedOp 0 None [] 0)) ! length ([]::int list) = 5000"
    by (rule retryOperation_rate_limit_delay [THEN conjunct1, rule_format])
  moreover have "retryOperation (\<lambda>i. 1 / 2) limitedOp 0 = (Inr 7, [5000], 2)"
    by (simp add: retryOperation_def retryLoop.simps [of _ limitedOp] limitedOp_def
        maxRetries_def retryDelay_def)
  ultimately show ?thesis by (simp add: retryOperation_def)
qed

section \<open>Properties of the fetcher\<close>

text \<open>
  Claim C6, as the code has it. An invocation of \<^verbatim>\<open>fetchWithTimeout\<close> in which
  \<^verbatim>\<open>fetch\<close> delivers a response, whatever its status, increments \<open>apiCalls\<close> by one and
  adds the call's latency to \<open>totalResponseTime\<close>. An invocation that times out or fails
  in transport throws a retryable \<open>AxelarAPIError\<close> with status 0, leaves both counters as
  they were and increments \<open>errors\<close>.
\<close>

theorem fetchWithTimeout_metrics:
  "(fetch env request (upstream s) = (Responded response, u') \<longrightarrow>
      apiCalls (metrics (snd (fetchWithTimeout env request s))) = apiCalls (metrics s) + 1
      \<and> totalResponseTime (metrics (snd (fetchWithTimeout env request s)))
          = totalResponseTime (metrics s) + (dateNow env u' - dateNow env (upstream s)))
   \<and> (fetch env request (upstream s) = (outcome, u')
        \<and> (outcome = AbortError \<or> outcome = NetworkFailure) \<longrightarrow>
      fst (fetchWithTimeout env request s) = Inl (AxelarAPIError 0 True)
      \<and> apiCalls (metrics (snd (fetchWithTimeout env request s))) = apiCalls (metrics s)
      \<and> totalResponseTime (metrics (snd (fetchWithTimeout env request s)))
          = totalResponseTime (metrics s)
      \<and> errors (metrics (snd (fetchWithTimeout env request s))) = errors (metrics s) + 1)"
  by (auto simp: fetchWithTimeout_def Let_def countCall_def countError_def)

theorem fetchWithTimeout_metrics_witness:
  "apiCalls (metrics (snd (fetchWithTimeout answeringEnv ChainsRequest (newService 0)))) = 1
   \<and> totalResponseTime (metrics (snd (fetchWithTimeout answeringEnv ChainsRequest (newService 0))))
       = 120
   \<and> fst (fetchWithTimeout timeoutEnv ChainsRequest (newService 0)) = Inl (AxelarAPIError 0 True)
   \<and> errors (metrics (snd (fetchWithTimeout timeoutEnv ChainsRequest (newService 0)))) = 1"
proof -
  have a: "fetch answeringEnv ChainsRequest (upstream (newService 0))
             = (Responded \<lparr>status = 200, retry_after = None, json = None\<rparr>, 120)"
    by (simp add: answeringEnv_def newService_def)
  have b: "fetch timeoutEnv ChainsRequest (upstream (newService 0)) = (AbortError, 30000)
             \<and> (AbortError = AbortError \<or> AbortError = NetworkFailure)"
    by (simp add: timeoutEnv_def newService_def)
  show ?thesis
    using fetchWithTimeout_metrics [THEN conjunct1, rule_format, OF a]
      fetchWithTimeout_metrics [THEN conjunct2, rule_format, OF b]
    by (simp add: newService_def answeringEnv_def)
qed

text \<open>
  A request that times out is not counted: the call counter and the accumulated latency
  are still zero after the first invocation, although 30 s have passed.
\<close>

theorem fetchWithTimeout_timeout_counterexample:
  "fst (fetchWithTimeout timeoutEnv ChainsRequest (newService 0)) = Inl (AxelarAPIError 0 True)
   \<and> upstream (snd (fetchWithTimeout timeoutEnv ChainsRequest (newService 0))) = 30000
   \<and> apiCalls (metrics (snd (fetchWithTimeout timeoutEnv ChainsRequest (newService 0)))) = 0
   \<and> totalResponseTime (metrics (snd (fetchWithTimeout timeoutEnv ChainsRequest (newService 0))))
       = 0"
  by (simp add: fetchWithTimeout_def timeoutEnv_def newService_def countError_def)

section \<open>Properties of the request deduplicator\<close>

lemma deduplicateMany_pending:
  "pending d key = Some p \<Longrightarrow> deduplicateMany n key d = (replicate n p, d)"
  by (induction n) (simp_all add: deduplicate_def)

lemma deduplicateMany_fresh:
  assumes "pending d key = None" and "0 < n"
  shows "deduplicateMany n key d
           = (replicate n (length (heap d)),
              d\<lparr>heap := heap d @ [\<lparr>promise_key = key, settlement = None\<rparr>],
                invoked := invoked d @ [key],
                pending := (pending d)(key \<mapsto> length (heap d))\<rparr>)"
proof -
  obtain m where m: "n = Suc m" using assms(2) by (cases n) auto
  let ?d1 = "d\<lparr>heap := heap d @ [\<lparr>promise_key = key, settlement = None\<rparr>],
                invoked := invoked d @ [key],
                pending := (pending d)(key \<mapsto> length (heap d))\<rparr>"
  have first: "deduplicate key d = (length (heap d), ?d1)"
    using assms(1) by (simp add: deduplicate_def Let_def)
  have "pending ?d1 key = Some (length (heap d))" by simp
  then have rest: "deduplicateMany m key ?d1 = (replicate m (length (heap d)), ?d1)"
    by (rule deduplicateMany_pending)
  show ?thesis by (simp add: m first rest)
qed

lemma deduplicateMany_single_flight:
  assumes "pending d key = None" and "2 \<le> n"
  shows "fst (deduplicateMany n key d) = replicate n (length (heap d))
       \<and> invoked (snd (deduplicateMany n key d)) = invoked d @ [key]
       \<and> pending (snd (deduplicateMany n key d)) key = Some (length (heap d))
       \<and> (\<forall>h \<in> set (fst (deduplicateMany n key d)).
             awaited h (snd (deduplicateMany n key d)) = None
           \<and> awaited h (settle (length (heap d)) outcome (snd (deduplicateMany n key d)))
               = Some outcome)
       \<and> pending (settle (length (heap d)) outcome (snd (deduplicateMany n key d))) key = None"
proof -
  have n: "0 < n" using assms(2) by simp
  show ?thesis
    unfolding deduplicateMany_fresh [OF assms(1) n]
    by (simp add: settle_def awaited_def)
qed

lemma pendingIsInFlight_new: "pendingIsInFlight newRequestDeduplicator"
  by (simp add: pendingIsInFlight_def newRequestDeduplicator_def inFlight_def)

lemma pendingIsInFlight_deduplicate:
  assumes "pendingIsInFlight d"
  shows "pendingIsInFlight (snd (deduplicate key d))"
proof (cases "pending d key")
  case (Some e)
  then show ?thesis using assms by (simp add: deduplicate_def)
next
  case None
  have a: "\<And>k p. pending d k = Some p \<Longrightarrow> inFlight p d \<and> promise_key (heap d ! p) = k"
    and b: "\<And>p. inFlight p d \<Longrightarrow> pending d (promise_key (heap d ! p)) = Some p"
    using assms by (auto simp: pendingIsInFlight_def)
  show ?thesis
    unfolding pendingIsInFlight_def
  proof (intro conjI allI impI)
    fix k p
    assume "pending (snd (deduplicate key d)) k = Some p"
    then show "inFlight p (snd (deduplicate key d))"
      using None a [of k p]
      by (auto simp: deduplicate_def Let_def inFlight_def nth_append split: if_splits)
  next
    fix k p
    assume "pending (snd (deduplicate key d)) k = Some p"
    then show "promise_key (heap (snd (deduplicate key d)) ! p) = k"
      using None a [of k p]
      by (auto simp: deduplicate_def Let_def inFlight_def nth_append split: if_splits)
  next
    fix p
    assume "inFlight p (snd (deduplicate key d))"
    then show "pending (snd (deduplicate key d))
                 (promise_key (heap (snd (deduplicate key d)) ! p)) = Some p"
      using None b [of p]
      by (auto simp: deduplicate_def Let_def inFlight_def nth_append split: if_splits)
  qed
qed

lemma pendingIsInFlight_settle:
  assumes "pendingIsInFlight d"
  shows "pendingIsInFlight (settle q outcome d)"
proof (cases "inFlight q d")
  case False
  then have "settle q outcome d = d" by (auto simp: settle_def inFlight_def)
  then show ?thesis using assms by simp
next
  case True
  have a: "\<And>k p. pending d k = Some p \<Longrightarrow> inFlight p d \<and> promise_key (heap d ! p) = k"
    and b: "\<And>p. inFlight p d \<Longrightarrow> pending d (promise_key (heap d ! p)) = Some p"
    using assms by (auto simp: pendingIsInFlight_def)
  have st: "settle q outcome d
      = d\<lparr>heap := (heap d)[q := (heap d ! q)\<lparr>settlement := Some outcome\<rparr>],
          pending := (pending d)(promise_key (heap d ! q) := None)\<rparr>"
    using True by (simp add: settle_def inFlight_def)
  show ?thesis
    unfolding pendingIsInFlight_def st
  proof (intro conjI allI impI)
    fix k p
    assume h: "pending (d\<lparr>heap := (heap d)[q := (heap d ! q)\<lparr>settlement := Some outcome\<rparr>],
          pending := (pending d)(promise_key (heap d ! q) := None)\<rparr>) k = Some p"
    then have k: "k \<noteq> promise_key (heap d ! q)" and p: "pending d k = Some p"
      by (auto split: if_splits)
    have "p \<noteq> q" using a [OF p] k by auto
    then show "inFlight p (d\<lparr>heap := (heap d)[q := (heap d ! q)\<lparr>settlement := Some outcome\<rparr>],
          pending := (pending d)(promise_key (heap d ! q) := None)\<rparr>)"
      using a [OF p] by (simp add: inFlight_def)
    from \<open>p \<noteq> q\<close> show "promise_key (heap (d\<lparr>heap := (heap d)[q := (heap d ! q)\<lparr>settlement := Some outcome\<rparr>],
          pending := (pending d)(promise_key (heap d ! q) := None)\<rparr>) ! p) = k"
      using a [OF p] by (simp add: inFlight_def)
  next
    fix p
    assume h: "inFlight p (d\<lparr>heap := (heap d)[q := (heap d ! q)\<lparr>settlement := Some outcome\<rparr>],
          pending := (pending d)(promise_key (heap d ! q) := None)\<rparr>)"
    then have pq: "p \<noteq> q"
      by (cases "p = q") (auto simp: inFlight_def)
    with h have fl: "inFlight p d"
      by (simp add: inFlight_def)
    have "promise_key (heap d ! p) \<noteq> promise_key (heap d ! q)"
      using b [OF fl] b [OF True] pq by auto
    then show "pending (d\<lparr>heap := (heap d)[q := (heap d ! q)\<lparr>settlement := Some outcome\<rparr>],
          pending := (pending d)(promise_key (heap d ! q) := None)\<rparr>)
        (promise_key (heap (d\<lparr>heap := (heap d)[q := (heap d ! q)\<lparr>settlement := Some outcome\<rparr>],
          pending := (pending d)(promise_key (heap d ! q) := None)\<rparr>) ! p)) = Some p"
      using b [OF fl] pq by simp
  qed
qed

lemma dedupStep_other:
  assumes inv: "pendingIsInFlight d" and pend: "pending d key = Some p"
    and ev: "\<forall>outcome. ev \<noteq> Settle p outcome"
  shows "pending (snd (dedupStep ev d)) key = Some p
       \<and> (\<forall>kh \<in> set (fst (dedupStep ev d)). fst kh = key \<longrightarrow> snd kh = p)
       \<and> filter (\<lambda>k. k = key) (invoked (snd (dedupStep ev d)))
           = filter (\<lambda>k. k = key) (invoked d)
       \<and> pendingIsInFlight (snd (dedupStep ev d))"
proof (cases ev)
  case (Call k)
  have "pendingIsInFlight (snd (deduplicate k d))"
    using inv by (rule pendingIsInFlight_deduplicate)
  then show ?thesis
    using pend by (auto simp: Call deduplicate_def Let_def split: option.splits prod.splits)
next
  case (Settle q outcome)
  have q: "q \<noteq> p" using ev Settle by auto
  have inv': "pendingIsInFlight (settle q outcome d)"
    using inv by (rule pendingIsInFlight_settle)
  have "pending (settle q outcome d) key = Some p"
  proof (cases "inFlight q d")
    case False
    then have "settle q outcome d = d" by (auto simp: settle_def inFlight_def)
    then show ?thesis using pend by simp
  next
    case True
    then have "pending d (promise_key (heap d ! q)) = Some q"
      using inv by (simp add: pendingIsInFlight_def)
    then have "promise_key (heap d ! q) \<noteq> key" using pend q by auto
    then show ?thesis using True pend by (simp add: settle_def inFlight_def)
  qed
  moreover have "invoked (settle q outcome d) = invoked d"
    by (simp add: settle_def)
  ultimately show ?thesis using inv' by (simp add: Settle)
qed

lemma runEvents_single_flight:
  assumes "pendingIsInFlight d" and "pending d key = Some p"
    and "\<forall>outcome. Settle p outcome \<notin> set evs"
  shows "pending (snd (runEvents evs d)) key = Some p
       \<and> (\<forall>kh \<in> set (fst (runEvents evs d)). fst kh = key \<longrightarrow> snd kh = p)
       \<and> filter (\<lambda>k. k = key) (invoked (snd (runEvents evs d)))
           = filter (\<lambda>k. k = key) (invoked d)
       \<and> pendingIsInFlight (snd (runEvents evs d))
       \<and> pending (settle p result (snd (runEvents evs d))) key = None
       \<and> awaited p (settle p result (snd (runEvents evs d))) = Some result"
proof -
  have run: "pending (snd (runEvents evs d)) key = Some p
       \<and> (\<forall>kh \<in> set (fst (runEvents evs d)). fst kh = key \<longrightarrow> snd kh = p)
       \<and> filter (\<lambda>k. k = key) (invoked (snd (runEvents evs d)))
           = filter (\<lambda>k. k = key) (invoked d)
       \<and> pendingIsInFlight (snd (runEvents evs d))"
    using assms
  proof (induction evs arbitrary: d)
    case Nil
    then show ?case by simp
  next
    case (Cons ev evs)
    have ev: "\<forall>outcome. ev \<noteq> Settle p outcome" using Cons.prems(3) by auto
    note step = dedupStep_other [OF Cons.prems(1,2) ev]
    obtain r1 d1 where s1: "dedupStep ev d = (r1, d1)" by (cases "dedupStep ev d")
    have rest: "\<forall>outcome. Settle p outcome \<notin> set evs" using Cons.prems(3) by auto
    have d1: "pendingIsInFlight d1" "pending d1 key = Some p"
      using step by (simp_all add: s1)
    note ih = Cons.IH [OF d1 rest]
    obtain r2 d2 where s2: "runEvents evs d1 = (r2, d2)" by (cases "runEvents evs d1")
    show ?case
      using step ih by (auto simp: s1 s2)
  qed
  let ?d = "snd (runEvents evs d)"
  have fl: "inFlight p ?d" and key: "promise_key (heap ?d ! p) = key"
    using run by (auto simp: pendingIsInFlight_def)
  have "pending (settle p result ?d) key = None"
    using fl key by (simp add: settle_def inFlight_def)
  moreover have "awaited p (settle p result ?d) = Some result"
    using fl by (simp add: settle_def awaited_def inFlight_def)
  ultimately show ?thesis using run by simp
qed

lemma pendingIsInFlight_reachable:
  "pendingIsInFlight (snd (runEvents evs newRequestDeduplicator))"
proof -
  have "pendingIsInFlight d \<Longrightarrow> pendingIsInFlight (snd (runEvents evs d))"
    for d :: "'a RequestDeduplicator"
  proof (induction evs arbitrary: d)
    case Nil
    then show ?case by simp
  next
    case (Cons ev evs)
    obtain r1 d1 where s1: "dedupStep ev d = (r1, d1)" by (cases "dedupStep ev d")
    have "pendingIsInFlight (snd (dedupStep ev d))"
    proof (cases ev)
      case (Call k)
      have "pendingIsInFlight (snd (deduplicate k d))"
        using Cons.prems by (rule pendingIsInFlight_deduplicate)
      then show ?thesis by (cases "deduplicate k d") (simp add: Call)
    next
      case (Settle q outcome)
      then show ?thesis using Cons.prems by (simp add: pendingIsInFlight_settle)
    qed
    then have "pendingIsInFlight d1" by (simp add: s1)
    from Cons.IH [OF this] show ?case
      by (cases "runEvents evs d1") (simp add: s1)
  qed
  then show ?thesis using pendingIsInFlight_new by blast
qed

text \<open>
  Claim C7. Let no operation be pending for the key. Of \<open>n \<ge> 2\<close> calls of
  \<^verbatim>\<open>deduplicate\<close> with that key, made before the operation settles, the first invokes the
  producer and every call returns the same promise: the producer is invoked exactly once.
  While the operation is in flight the key is pending; when it settles, with a value or
  with an error, every caller observes that same settlement and the key is no longer in
  the pending map.

  The same holds when the calls are interleaved with other steps of the event loop. In a
  state where the pending map holds exactly the promises in flight (every state reached
  from the new deduplicator is such a state), let promise \<open>p\<close> be pending for the key. Then
  over every sequence of calls, for this or other keys, and settlements of other promises,
  every call with the key returns \<open>p\<close>, the producer is not invoked again for the key, and
  when \<open>p\<close> settles every holder of \<open>p\<close> observes that settlement and the key is removed.
\<close>

theorem deduplicate_single_flight:
  "(pending d key = None \<and> 2 \<le> n \<longrightarrow>
      fst (deduplicateMany n key d) = replicate n (length (heap d))
      \<and> invoked (snd (deduplicateMany n key d)) = invoked d @ [key]
      \<and> pending (snd (deduplicateMany n key d)) key = Some (length (heap d))
      \<and> (\<forall>h \<in> set (fst (deduplicateMany n key d)).
            awaited h (snd (deduplicateMany n key d)) = None
          \<and> awaited h (settle (length (heap d)) outcome (snd (deduplicateMany n key d)))
              = Some outcome)
      \<and> pending (settle (length (heap d)) outcome (snd (deduplicateMany n key d))) key = None)
   \<and> (pendingIsInFlight d \<and> pending d key = Some p
        \<and> (\<forall>x. Settle p x \<notin> set evs) \<longrightarrow>
      pending (snd (runEvents evs d)) key = Some p
      \<and> (\<forall>kh \<in> set (fst (runEvents evs d)). fst kh = key \<longrightarrow> snd kh = p)
      \<and> filter (\<lambda>k. k = key) (invoked (snd (runEvents evs d)))
          = filter (\<lambda>k. k = key) (invoked d)
      \<and> pending (settle p outcome (snd (runEvents evs d))) key = None
      \<and> awaited p (settle p outcome (snd (runEvents evs d))) = Some outcome)
   \<and> pendingIsInFlight (snd (runEvents evs (newRequestDeduplicator :: 'a RequestDeduplicator)))"
proof -
  have burst: "pending d key = None \<and> 2 \<le> n \<longrightarrow>
      fst (deduplicateMany n key d) = replicate n (length (heap d))
      \<and> invoked (snd (deduplicateMany n key d)) = invoked d @ [key]
      \<and> pending (snd (deduplicateMany n key d)) key = Some (length (heap d))
      \<and> (\<forall>h \<in> set (fst (deduplicateMany n key d)).
            awaited h (snd (deduplicateMany n key d)) = None
          \<and> awaited h (settle (length (heap d)) outcome (snd (deduplicateMany n key d)))
              = Some outcome)
      \<and> pending (settle (length (heap d)) outcome (snd (deduplicateMany n key d))) key = None"
    using deduplicateMany_single_flight [of d key n outcome] by blast
  have inter: "pendingIsInFlight d \<and> pending d key = Some p
        \<and> (\<forall>x. Settle p x \<notin> set evs) \<longrightarrow>
      pending (snd (runEvents evs d)) key = Some p
      \<and> (\<forall>kh \<in> set (fst (runEvents evs d)). fst kh = key \<longrightarrow> snd kh = p)
      \<and> filter (\<lambda>k. k = key) (invoked (snd (runEvents evs d)))
          = filter (\<lambda>k. k = key) (invoked d)
      \<and> pending (settle p outcome (snd (runEvents evs d))) key = None
      \<and> awaited p (settle p outcome (snd (runEvents evs d))) = Some outcome"
    using runEvents_single_flight [of d key p evs outcome] by blast
  from burst inter pendingIsInFlight_reachable [of evs] show ?thesis by blast
qed

theorem deduplicate_single_flight_witness:
  "fst (deduplicateMany 3 ''1:0xabc'' (newRequestDeduplicator :: real RequestDeduplicator)) = [0, 0, 0]
   \<and> invoked (snd (deduplicateMany 3 ''1:0xabc'' (newRequestDeduplicator :: real RequestDeduplicator)))
       = [''1:0xabc'']
   \<and> awaited 0 (settle 0 (Fulfilled 2)
        (snd (deduplicateMany 3 ''1:0xabc'' (newRequestDeduplicator :: real RequestDeduplicator))))
       = Some (Fulfilled 2)
   \<and> pending (settle 0 (Rejected (PriceAPIError ''WBTC''))
        (snd (deduplicateMany 3 ''1:0xabc'' (newRequestDeduplicator :: real RequestDeduplicator))))
        ''1:0xabc'' = None
   \<and> fst (runEvents [Call ''a'', Call ''b'', Call ''a'', Settle 1 (Fulfilled 3), Call ''a'', Call ''b'']
         (newRequestDeduplicator :: real RequestDeduplicator))
       = [(''a'', 0), (''b'', 1), (''a'', 0), (''a'', 0), (''b'', 2)]
   \<and> invoked (snd (runEvents
         [Call ''a'', Call ''b'', Call ''a'', Settle 1 (Fulfilled 3), Call ''a'', Call ''b'']
         (newRequestDeduplicator :: real RequestDeduplicator)))
       = [''a'', ''b'', ''b'']"
proof -
  let ?new = "newRequestDeduplicator :: real RequestDeduplicator"
  have p: "pending ?new ''1:0xabc'' = None \<and> 2 \<le> (3::nat)"
    by (simp add: newRequestDeduplicator_def)
  let ?d0 = "snd (runEvents [Call ''a''] ?new)"
  let ?evs = "[Call ''b'', Call ''a'', Settle 1 (Fulfilled 3), Call ''a'', Call ''b'']"
  have "pendingIsInFlight ?d0"
    by (rule deduplicate_single_flight [THEN conjunct2, THEN conjunct2])
  moreover have "pending ?d0 ''a'' = Some 0"
    by (simp add: deduplicate_def newRequestDeduplicator_def Let_def)
  moreover have "\<forall>x. Settle 0 x \<notin> set ?evs" by simp
  ultimately have q: "pendingIsInFlight ?d0 \<and> pending ?d0 ''a'' = Some 0
      \<and> (\<forall>x. Settle 0 x \<notin> set ?evs)"
    by blast
  show ?thesis
    using deduplicate_single_flight [THEN conjunct1, rule_format, OF p, of "Fulfilled 2"]
      deduplicate_single_flight
        [THEN conjunct1, rule_format, OF p, of "Rejected (PriceAPIError ''WBTC'')"]
      deduplicate_single_flight [THEN conjunct2, THEN conjunct1, rule_format, OF q]
    by (simp add: deduplicate_def settle_def newRequestDeduplicator_def Let_def
        eval_nat_numeral)
qed

section \<open>Properties of the arithmetic of doubles\<close>

lemma pow2_pos: "0 < pow2 k"
  by (simp add: pow2_def)

lemma pow2_Suc: "pow2 (k + 1) = 2 * pow2 k"
proof (cases "0 \<le> k")
  case True
  then show ?thesis by (simp add: pow2_def nat_add_distrib)
next
  case False
  then have "nat (- k) = Suc (nat (- (k + 1)))" by simp
  then show ?thesis using False by (simp add: pow2_def)
qed

lemma binaryExponent_bounds:
  assumes "0 < m"
  shows "pow2 (binaryExponent m) \<le> m \<and> m < pow2 (binaryExponent m + 1)"
proof (cases "1 \<le> m")
  case True
  define n where "n = \<lfloor>m\<rfloor>"
  have n: "0 < n" using True by (simp add: n_def)
  then have b: "2 ^ nat (bitlen n - 1) \<le> n" "n < 2 ^ nat (bitlen n)"
    using bitlen_bounds [of n] by simp_all
  have k: "1 \<le> bitlen n" using n by (simp add: bitlen_alt_def)
  have e: "binaryExponent m = bitlen n - 1" using True by (simp add: binaryExponent_def n_def)
  have "(2::real) ^ nat (bitlen n - 1) \<le> real_of_int n"
    using b(1) of_int_le_iff [of "2 ^ nat (bitlen n - 1)" n, where ?'a = real] by simp
  moreover have "real_of_int n \<le> m" by (simp add: n_def)
  ultimately have "(2::real) ^ nat (bitlen n - 1) \<le> m" by linarith
  then have lo: "pow2 (binaryExponent m) \<le> m" using k by (simp add: e pow2_def)
  have "n + 1 \<le> 2 ^ nat (bitlen n)" using b(2) by simp
  then have "real_of_int (n + 1) \<le> (2::real) ^ nat (bitlen n)"
    using of_int_le_iff [of "n + 1" "2 ^ nat (bitlen n)", where ?'a = real] by simp
  moreover have "m < real_of_int (n + 1)" by (simp add: n_def)
  ultimately have "m < (2::real) ^ nat (bitlen n)" by linarith
  then have hi: "m < pow2 (binaryExponent m + 1)" using k by (simp add: e pow2_def)
  show ?thesis using lo hi by simp
next
  case False
  define y where "y = 1 / m"
  define c where "c = \<lceil>y\<rceil>"
  have y: "1 < y" using False assms by (simp add: y_def)
  then have c: "2 \<le> c" by (simp add: c_def le_ceiling_iff)
  define k where "k = bitlen (c - 1)"
  have b: "2 ^ nat (k - 1) \<le> c - 1" "c - 1 < 2 ^ nat k"
    using bitlen_bounds [of "c - 1"] c by (simp_all add: k_def)
  have k: "1 \<le> k" using c by (simp add: k_def bitlen_alt_def)
  have e: "binaryExponent m = - k"
    using False by (simp add: binaryExponent_def k_def c_def y_def)
  have "c \<le> 2 ^ nat k" using b(2) by simp
  then have "real_of_int c \<le> (2::real) ^ nat k"
    using of_int_le_iff [of c "2 ^ nat k", where ?'a = real] by simp
  moreover have "y \<le> real_of_int c" by (simp add: c_def)
  ultimately have "y \<le> 2 ^ nat k" by linarith
  then have "1 \<le> m * 2 ^ nat k" using assms by (simp add: y_def field_simps)
  then have lo: "pow2 (binaryExponent m) \<le> m" using k by (simp add: e pow2_def field_simps)
  have "(2::real) ^ nat (k - 1) \<le> real_of_int (c - 1)"
    using b(1) of_int_le_iff [of "2 ^ nat (k - 1)" "c - 1", where ?'a = real] by simp
  moreover have "real_of_int (c - 1) < y" by (simp add: c_def) linarith
  ultimately have "2 ^ nat (k - 1) < y" by linarith
  then have "m * 2 ^ nat (k - 1) < 1" using assms by (simp add: y_def field_simps)
  then have "m < 1 / 2 ^ nat (k - 1)" by (simp add: pos_less_divide_eq)
  moreover have "pow2 (- k + 1) = 1 / 2 ^ nat (k - 1)" using k by (simp add: pow2_def)
  ultimately have hi: "m < pow2 (binaryExponent m + 1)" unfolding e by simp
  show ?thesis using lo hi by simp
qed

lemma roundHalfEven_near: "\<bar>real_of_int (roundHalfEven z) - z\<bar> \<le> 1 / 2"
  by (simp add: roundHalfEven_def Let_def)


lemma pow2_mono: "j \<le> k \<Longrightarrow> pow2 j \<le> pow2 k"
proof (induction "nat (k - j)" arbitrary: k)
  case 0
  then show ?case by simp
next
  case (Suc d)
  then have "d = nat ((k - 1) - j)" and "j \<le> k - 1" by simp_all
  then have "pow2 j \<le> pow2 (k - 1)" by (rule Suc.hyps(1))
  also have "\<dots> \<le> pow2 k" using pow2_Suc [of "k - 1"] pow2_pos [of "k - 1"] by simp
  finally show ?case .
qed

lemma pow2_53: "pow2 (e + 1) = 2 ^ 53 * pow2 (e - 52)"
proof -
  have "pow2 (e - 52 + int n) = 2 ^ n * pow2 (e - 52)" for n
  proof (induction n)
    case 0
    show ?case by simp
  next
    case (Suc n)
    have "e - 52 + int (Suc n) = (e - 52 + int n) + 1" by simp
    then have "pow2 (e - 52 + int (Suc n)) = 2 * pow2 (e - 52 + int n)"
      by (simp only: pow2_Suc)
    also have "\<dots> = 2 * (2 ^ n * pow2 (e - 52))" by (simp only: Suc)
    also have "\<dots> = 2 ^ Suc n * pow2 (e - 52)" by simp
    finally show ?case .
  qed
  from this [of 53] show ?thesis by (simp add: add.commute)
qed

text \<open>
  \<open>double x\<close> is a nearest double: it is \<open>m * 2 ^ k\<close> for a significand \<open>m\<close> of
  magnitude at most \<open>2 ^ 53\<close> and an exponent \<open>k \<ge> -1074\<close>, it is within half of the spacing
  \<open>2 ^ k\<close> of \<open>x\<close>, and the spacing is the finest one that a 53-bit significand allows
  for \<open>x\<close> (or the least one, in the subnormal range).
\<close>

theorem double_nearest:
  assumes "x \<noteq> 0"
  shows "\<exists>m k. double x = real_of_int m * pow2 k \<and> \<bar>m\<bar> \<le> 2 ^ 53 \<and> - 1074 \<le> k
           \<and> \<bar>double x - x\<bar> \<le> pow2 k / 2
           \<and> (k = - 1074 \<or> 2 ^ 52 * pow2 k \<le> \<bar>x\<bar>)"
proof -
  define e where "e = max (binaryExponent \<bar>x\<bar>) (- 1022)"
  define k where "k = e - 52"
  define m where "m = roundHalfEven (x / pow2 k)"
  have pos: "0 < \<bar>x\<bar>" using assms by simp
  have d: "double x = real_of_int m * pow2 k"
    using assms by (simp add: double_def Let_def m_def k_def e_def)
  have k: "- 1074 \<le> k" by (simp add: k_def e_def)
  have near: "\<bar>real_of_int m - x / pow2 k\<bar> \<le> 1 / 2"
    unfolding m_def by (rule roundHalfEven_near)
  have "double x - x = (real_of_int m - x / pow2 k) * pow2 k"
    using pow2_pos [of k] by (simp add: d left_diff_distrib)
  then have "\<bar>double x - x\<bar> = \<bar>real_of_int m - x / pow2 k\<bar> * pow2 k"
    using pow2_pos [of k] by (simp add: abs_mult)
  also have "\<dots> \<le> 1 / 2 * pow2 k"
    using near pow2_pos [of k] by (intro mult_right_mono) simp_all
  finally have err: "\<bar>double x - x\<bar> \<le> pow2 k / 2" by simp
  have "\<bar>x\<bar> < pow2 (binaryExponent \<bar>x\<bar> + 1)"
    using binaryExponent_bounds [OF pos] by simp
  also have "\<dots> \<le> pow2 (e + 1)" by (rule pow2_mono) (simp add: e_def)
  also have "\<dots> = 2 ^ 53 * pow2 k" unfolding k_def by (rule pow2_53)
  finally have "\<bar>x\<bar> / pow2 k < 2 ^ 53" using pow2_pos [of k] by (simp add: field_simps)
  then have "\<bar>x / pow2 k\<bar> < 2 ^ 53" using pow2_pos [of k] by (simp add: abs_divide)
  then have "\<bar>real_of_int m\<bar> < 2 ^ 53 + 1" using near by linarith
  then have "\<bar>m\<bar> < 2 ^ 53 + 1"
    using of_int_less_iff [of "\<bar>m\<bar>" "2 ^ 53 + 1", where ?'a = real] by simp
  then have m: "\<bar>m\<bar> \<le> 2 ^ 53" by simp
  have fine: "k = - 1074 \<or> 2 ^ 52 * pow2 k \<le> \<bar>x\<bar>"
  proof (cases "binaryExponent \<bar>x\<bar> \<le> - 1022")
    case True
    then show ?thesis by (simp add: k_def e_def)
  next
    case False
    then have e: "e = binaryExponent \<bar>x\<bar>" by (simp add: e_def)
    have "pow2 (e + 1) = 2 ^ 53 * pow2 k" unfolding k_def by (rule pow2_53)
    then have "2 * pow2 e = 2 ^ 53 * pow2 k" by (simp add: pow2_Suc)
    then have "pow2 e = 2 ^ 52 * pow2 k" by simp
    then show ?thesis using binaryExponent_bounds [OF pos] by (simp add: e)
  qed
  show ?thesis using d m k err fine by blast
qed

text \<open>From \<open>2 ^ (- 1022)\<close> on, the relative error of a rounding is at most \<open>2 ^ (- 53)\<close>.\<close>

lemma pow2_1022: "pow2 (- 1022) = 2 ^ 52 * pow2 (- 1074)"
proof -
  have "pow2 (- 1022 + 1) = 2 ^ 53 * pow2 (- 1022 - 52)" by (rule pow2_53)
  then have "2 * pow2 (- 1022) = 2 ^ 53 * pow2 (- 1074)" by (simp only: pow2_Suc) simp
  then show ?thesis by simp
qed

lemma double_relative:
  assumes "pow2 (- 1022) \<le> \<bar>x\<bar>"
  shows "\<bar>double x - x\<bar> \<le> \<bar>x\<bar> / 2 ^ 53"
proof -
  have "x \<noteq> 0" using assms pow2_pos [of "- 1022"] by auto
  then obtain m k where err: "\<bar>double x - x\<bar> \<le> pow2 k / 2"
    and fine: "k = - 1074 \<or> 2 ^ 52 * pow2 k \<le> \<bar>x\<bar>"
    using double_nearest [of x] by blast
  from fine have "2 ^ 52 * pow2 k \<le> \<bar>x\<bar>"
    using assms by (auto simp add: pow2_1022)
  then show ?thesis using err by simp
qed

lemma double_lower:
  assumes "pow2 (- 1022) \<le> x"
  shows "999999 / 1000000 * x \<le> double x"
proof -
  have x: "0 < x" using assms pow2_pos [of "- 1022"] by linarith
  then have "\<bar>double x - x\<bar> \<le> x / 2 ^ 53" using double_relative [of x] assms by simp
  moreover have "x / 2 ^ 53 \<le> x / 1000000" using x by (intro divide_left_mono) simp_all
  ultimately show ?thesis by linarith
qed

lemma pow2_1022_small: "pow2 (- 1022) \<le> 1 / 1024"
proof -
  have "pow2 (- 1022) \<le> pow2 (- 10)" by (rule pow2_mono) simp
  then show ?thesis by (simp add: pow2_def)
qed

text \<open>Rules that evaluate \<open>double\<close> at a numeral.\<close>

lemma bitlen_numeral: "bitlen (numeral k) = bitlen (numeral k div 2) + 1"
  by (subst compute_bitlen) simp

lemma bitlen_one: "bitlen 1 = 1"
  by (subst compute_bitlen) simp

lemma double_zero: "double 0 = 0"
  by (simp add: double_def)

lemmas double_eval =
  double_zero double_def [of 1] double_def [of "numeral k"] double_def [of "1 / numeral l"]
  double_def [of "numeral k / numeral l"] double_def [of "- x"]
  binaryExponent_def roundHalfEven_def pow2_def Let_def bitlen_numeral bitlen_one
  for k l x

text \<open>
  Known values of the arithmetic of doubles: the double written \<^verbatim>\<open>0.1\<close>, the sum
  \<^verbatim>\<open>0.1 + 0.2\<close>, which is \<^verbatim>\<open>0.30000000000000004\<close> and not \<^verbatim>\<open>0.3\<close>, the ties at
  \<open>2 ^ 53 + 1\<close> and \<open>2 ^ 53 + 3\<close>, and \<^verbatim>\<open>1 / 3\<close>.
\<close>

lemma double_known_answers:
  "double 0.1 = 3602879701896397 / 2 ^ 55"
  "double (double 0.1 + double 0.2) = double 0.30000000000000004"
  "double (double 0.1 + double 0.2) \<noteq> double 0.3"
  "double (2 ^ 53 + 1) = 2 ^ 53"
  "double (2 ^ 53 + 3) = 2 ^ 53 + 4"
  "double (- (2 ^ 53 + 3)) = - (2 ^ 53 + 4)"
  "double (1 / 3) = 6004799503160661 / 2 ^ 54"
  by (simp_all add: double_eval)

section \<open>Properties of the rate quote\<close>

text \<open>The definitions that make up the arithmetic of a quote.\<close>

lemmas quote_eval = quoteRate_def feeRatio_def totalFeeUsd_def gasFeeUsd_def
  upstreamGasFeeUsd_def jsDivide_def toFixed6_def

text \<open>
  Quotes in which the rounding of a double decides a digit: 37000000 units give 31962999
  (the rounded product is below \<open>31963000\<close>), and the fee of 1500 units, a double below
  \<open>0.0007515\<close>, is reported as \<^verbatim>\<open>0.000751\<close>.
\<close>

lemma quoteRate_known_answers:
  "amountOut (quoteRate ethUsdc polygonUsdc 37000000 (Some emptyBody) 1 t) = 31962999"
  "totalFeesUsd (quoteRate ethUsdc polygonUsdc 1500 (Some emptyBody) 1 t) = double 0.000751"
  "amountOut (quoteRate ethUsdc polygonUsdc 1000000000 (Some emptyBody) 1 t) = 994000000"
  by (simp_all add: quote_eval double_eval ethUsdc_def polygonUsdc_def emptyBody_def)

lemma stable_USDC: "str_includes (toUpperCase ''USDC'') ''USDC''"
  by (simp add: toUpperCase_def toUpperChar_def)

text \<open>
  The quote of a stablecoin when the fee endpoint answers HTTP 200 without a
  \<^verbatim>\<open>fee_usd\<close>: the price is 1 without a price request, and the rate is computed at the
  clock reading after the one request.
\<close>

lemma getAxelarQuote_stablecoin:
  assumes "str_includes (toUpperCase (symbol src)) ''USDC''"
  shows "fst (getAxelarQuote quotingEnv src dst a (newService 0))
           = Inr (quoteRate src dst a (Some emptyBody) 1 120)"
  using assms
  by (simp add: getAxelarQuote_def fetchWithTimeout_def quotingEnv_def newService_def Let_def
      ok_def countCall_def getUsdPrice_def TTLCache_get_def newTTLCache_def setPrice_def)

lemma quoteRate_two_units:
  "quoteRate ethUsdc polygonUsdc 2 (Some emptyBody) 1 t
     = \<lparr>rate_source = ethUsdc, rate_destination = polygonUsdc, amountIn = 2, amountOut = 0,
        effectiveRate = Some 0, totalFeesUsd = double 0.000001, quotedAt = t\<rparr>"
  by (simp add: quote_eval double_eval ethUsdc_def polygonUsdc_def emptyBody_def)

lemma fee_two_units:
  "double (double (double 2 / double (10 ^ decimals ethUsdc)) * 1) = 4722366482869645 / 2 ^ 71
   \<and> totalFeeUsd (Some emptyBody) (double (double 2 / double (10 ^ decimals ethUsdc))) 1
       = 591476401979423 / 2 ^ 69
   \<and> feeRatio (Some emptyBody) (double (double 2 / double (10 ^ decimals ethUsdc))) 1
       = 4512606826625237 / 2 ^ 53"
  by (simp add: quote_eval double_eval ethUsdc_def emptyBody_def)

text \<open>
  The cap of lines 624-626 never holds the fee at 50%. Whenever the gas fee is capped
  (the notional is worth at least \<open>2 ^ (- 1011)\<close> USD, so that no product is
  subnormal), the total fee is more than half of the USD value of the notional, and the
  fee ratio is above 0.5.
\<close>

theorem totalFeeUsd_exceeds_cap:
  assumes small: "2048 * pow2 (- 1022) \<le> double (n * p)"
    and capped: "double (double (n * p) * 0.5) < upstreamGasFeeUsd feeData"
  shows "0.5 * double (n * p) < totalFeeUsd feeData n p \<and> 0.5 < feeRatio feeData n p"
proof -
  define t where "t = pow2 (- 1022)"
  define u where "u = double (n * p)"
  define c where "c = double 0.001"
  define w where "w = u * c"
  define b where "b = double w"
  define h where "h = u * 0.5"
  define g where "g = double h"
  define T where "T = double (b + g)"
  define q where "q = T / u"
  have t: "0 < t" "t \<le> 1 / 1024"
    using pow2_pos [of "- 1022"] pow2_1022_small by (simp_all add: t_def)
  have u: "2048 * t \<le> u" using small by (simp add: t_def u_def)
  then have upos: "0 < u" using t by linarith
  have "t \<le> 0.001" using t by simp
  then have "999999 / 1000000 * 0.001 \<le> c"
    unfolding c_def t_def by (rule double_lower)
  then have c: "99 / 100000 \<le> c" by simp
  have "u * (99 / 100000) \<le> u * c" using c upos by (intro mult_left_mono) simp_all
  then have w: "99 / 100000 * u \<le> w" by (simp add: w_def)
  then have "t \<le> w" using u t by linarith
  then have "999999 / 1000000 * w \<le> b"
    unfolding b_def t_def by (rule double_lower)
  then have b: "9 / 10000 * u \<le> b" using w upos by linarith
  have h: "h = u / 2" by (simp add: h_def)
  then have "t \<le> h" using u t by linarith
  then have "999999 / 1000000 * h \<le> g"
    unfolding g_def t_def by (rule double_lower)
  then have g: "4999 / 10000 * u \<le> g" using h upos by linarith
  have "t \<le> b + g" using b g u t upos by linarith
  then have "999999 / 1000000 * (b + g) \<le> T"
    unfolding T_def t_def by (rule double_lower)
  then have "999999 / 1000000 * b + 999999 / 1000000 * g \<le> T"
    by (simp only: distrib_left)
  then have T: "5007 / 10000 * u \<le> T" using b g upos by linarith
  have gas: "gasFeeUsd feeData u = g"
    using capped upos by (simp add: gasFeeUsd_def Let_def u_def g_def h_def)
  have total: "totalFeeUsd feeData n p = T"
    using gas by (simp add: totalFeeUsd_def Let_def T_def b_def w_def c_def u_def)
  have q: "5007 / 10000 \<le> q" using T upos by (simp add: q_def pos_le_divide_eq)
  then have "t \<le> q" using t by linarith
  then have "999999 / 1000000 * q \<le> double q"
    unfolding t_def by (rule double_lower)
  then have r1: "1 / 2 < double q" using q by linarith
  have "t \<le> 0.99" using t by simp
  then have "999999 / 1000000 * 0.99 \<le> double 0.99"
    unfolding t_def by (rule double_lower)
  then have r2: "1 / 2 < double 0.99" by simp
  have ratio: "feeRatio feeData n p = min (double q) (double 0.99)"
    using upos total by (simp add: feeRatio_def Let_def u_def q_def)
  have "u / 2 < T" using T upos by linarith
  then show ?thesis using r1 r2 by (simp add: total ratio u_def [symmetric])
qed

theorem totalFeeUsd_exceeds_cap_witness:
  "0.5 * double (double (double 2 / double (10 ^ 6)) * 1)
     < totalFeeUsd (Some emptyBody) (double (double 2 / double (10 ^ 6))) 1
   \<and> 0.5 < feeRatio (Some emptyBody) (double (double 2 / double (10 ^ 6))) 1"
proof -
  have n: "double (double (double 2 / double (10 ^ 6)) * 1) = 4722366482869645 / 2 ^ 71"
    by (simp add: double_eval)
  have small: "2048 * pow2 (- 1022) \<le> double (double (double 2 / double (10 ^ 6)) * 1)"
    unfolding n by (simp add: pow2_def)
  have capped: "double (double (double (double 2 / double (10 ^ 6)) * 1) * 0.5)
      < upstreamGasFeeUsd (Some emptyBody)"
    unfolding n by (simp add: upstreamGasFeeUsd_def emptyBody_def double_eval)
  show ?thesis using small capped by (rule totalFeeUsd_exceeds_cap)
qed

text \<open>
  Claim C4 states that the fee of a quote is capped at 50% of the USD value of the
  notional and that the amount out is strictly positive. The quote for 2 units of USDC
  from Ethereum to Polygon (6 decimals each, price 1 USD), with the fee endpoint answering
  without a \<^verbatim>\<open>fee_usd\<close>: the notional is worth \<open>4722366482869645 / 2 ^ 71\<close> USD (the
  double \<^verbatim>\<open>0.000002\<close>); lines 624-626 cap the gas fee of 5 USD at half of that, and
  line 629 adds the base fee of 0.1% to the capped gas fee. The total fee is
  \<open>591476401979423 / 2 ^ 69\<close> USD (\<^verbatim>\<open>0.0000010019999999999999\<close>), more than half of
  the notional; the fee ratio is \<open>4512606826625237 / 2 ^ 53\<close> (\<^verbatim>\<open>0.501\<close>), and the
  amount out is \<open>\<lfloor>2 * 0.499\<rfloor> = 0\<close>. A fee capped at 50% would leave
  \<open>\<lfloor>2 * 0.5\<rfloor> = 1\<close> unit.
\<close>

theorem getAxelarQuote_fee_cap:
  "fst (getAxelarQuote quotingEnv ethUsdc polygonUsdc 2 (newService 0))
     = Inr \<lparr>rate_source = ethUsdc, rate_destination = polygonUsdc, amountIn = 2,
            amountOut = 0, effectiveRate = Some 0, totalFeesUsd = double 0.000001,
            quotedAt = 120\<rparr>
   \<and> double (double (double 2 / double (10 ^ decimals ethUsdc)) * 1) = 4722366482869645 / 2 ^ 71
   \<and> totalFeeUsd (Some emptyBody) (double (double 2 / double (10 ^ decimals ethUsdc))) 1
       = 591476401979423 / 2 ^ 69
   \<and> feeRatio (Some emptyBody) (double (double 2 / double (10 ^ decimals ethUsdc))) 1
       = 4512606826625237 / 2 ^ 53
   \<and> (0.5::real) * (4722366482869645 / 2 ^ 71) < 591476401979423 / 2 ^ 69
   \<and> (0.5::real) < 4512606826625237 / 2 ^ 53"
proof -
  have s: "str_includes (toUpperCase (symbol ethUsdc)) ''USDC''"
    by (simp add: ethUsdc_def stable_USDC)
  have q: "fst (getAxelarQuote quotingEnv ethUsdc polygonUsdc 2 (newService 0))
      = Inr (quoteRate ethUsdc polygonUsdc 2 (Some emptyBody) 1 120)"
    using s by (rule getAxelarQuote_stablecoin)
  have n: "(0.5::real) * (4722366482869645 / 2 ^ 71) < 591476401979423 / 2 ^ 69
      \<and> (0.5::real) < 4512606826625237 / 2 ^ 53"
    by simp
  show ?thesis
    unfolding q quoteRate_two_units using fee_two_units n by simp
qed

lemma quoteRate_bsc_eth:
  "quoteRate bscUsdc ethUsdc (10 ^ 21) (Some emptyBody) 1 t
     = \<lparr>rate_source = bscUsdc, rate_destination = ethUsdc, amountIn = 10 ^ 21,
        amountOut = 994 * 10 ^ 18, effectiveRate = Some 994000000000,
        totalFeesUsd = 6, quotedAt = t\<rparr>"
  by (simp add: quote_eval double_eval ethUsdc_def bscUsdc_def emptyBody_def)

text \<open>
  Claim C3 states \<open>0 \<le> effectiveRate \<le> 1\<close> for every combination of source and
  destination decimals. The quote for 1000 USDC from BNB Smart Chain (18 decimals) to
  Ethereum (6 decimals), with the fee endpoint answering without a \<^verbatim>\<open>fee_usd\<close>, has an
  amount out of \<open>994 * 10 ^ 18\<close> source units, which the service divides by
  \<open>10 ^ 6\<close>: the effective rate is \<open>994000000000\<close>.
\<close>

theorem getAxelarQuote_decimals:
  "fst (getAxelarQuote quotingEnv bscUsdc ethUsdc (10 ^ 21) (newService 0))
     = Inr \<lparr>rate_source = bscUsdc, rate_destination = ethUsdc, amountIn = 10 ^ 21,
            amountOut = 994 * 10 ^ 18, effectiveRate = Some 994000000000,
            totalFeesUsd = 6, quotedAt = 120\<rparr>"
proof -
  have s: "str_includes (toUpperCase (symbol bscUsdc)) ''USDC''"
    by (simp add: bscUsdc_def stable_USDC)
  have "fst (getAxelarQuote quotingEnv bscUsdc ethUsdc (10 ^ 21) (newService 0))
      = Inr (quoteRate bscUsdc ethUsdc (10 ^ 21) (Some emptyBody) 1 120)"
    using s by (rule getAxelarQuote_stablecoin)
  then show ?thesis by (simp only: quoteRate_bsc_eth)
qed

section \<open>Properties of the snapshot\<close>

lemma retryOperation_success:
  "operation w = (Inr r, w') \<Longrightarrow> retryOperation rnd operation w = (Inr r, [], w')"
  by (simp add: retryOperation_def retryLoop.simps [of _ _ 0] maxRetries_def)

lemma getVolume_window: "window (fst (getVolume env w s)) = w"
  by (simp add: getVolume_def Let_def split: prod.splits sum.splits)

lemma getVolumes_returns:
  "\<exists>vs s'. getVolumes env ws s = (Inr vs, s') \<and> map window vs = ws"
proof (induction ws arbitrary: s)
  case Nil
  show ?case by simp
next
  case (Cons w ws)
  obtain v s1 where v: "getVolume env w s = (v, s1)" by (cases "getVolume env w s")
  from Cons.IH [of s1] obtain vs s2 where
    vs: "getVolumes env ws s1 = (Inr vs, s2)" "map window vs = ws" by auto
  have "window v = w" using getVolume_window [of env w s] by (simp add: v)
  then show ?case by (simp add: v vs)
qed

lemma getRates_returns: "\<exists>rs s'. getRates env rts ns s = (Inr rs, s')"
proof (induction rts arbitrary: s)
  case Nil
  show ?case by simp
next
  case (Cons r rts)
  obtain here s1 where h: "getRatesOfRoute env r ns s = (here, s1)"
    by (cases "getRatesOfRoute env r ns s")
  from Cons.IH [of s1] obtain rest s2 where "getRates env rts ns s1 = (Inr rest, s2)" by auto
  then show ?case by (simp add: h)
qed

lemma getLiquidityDepth_returns: "\<exists>ls s'. getLiquidityDepth env rts s = (Inr ls, s')"
proof (induction rts arbitrary: s)
  case Nil
  show ?case by simp
next
  case (Cons r rts)
  obtain entry s1 where h: "getLiquidityOfRoute env r s = (entry, s1)"
    by (cases "getLiquidityOfRoute env r s")
  from Cons.IH [of s1] obtain rest s2 where "getLiquidityDepth env rts s1 = (Inr rest, s2)"
    by auto
  then show ?case by (simp add: h)
qed

lemma getListedAssets_returns: "\<exists>a s'. getListedAssets env s = (Inr a, s')"
  by (simp add: getListedAssets_def Let_def split: prod.splits option.splits sum.splits)

text \<open>
  Claim C10. When \<open>includeWindows\<close> is omitted, \<^verbatim>\<open>getSnapshot\<close> returns a snapshot, whatever
  the upstream services do, and its \<open>volumes\<close> array has exactly one entry, for the window
  \<open>24h\<close>.
\<close>

theorem getSnapshot_default_window:
  assumes "includeWindows params = None"
  shows "\<exists>snap. fst (getSnapshot env params s) = Inr snap
           \<and> map window (volumes snap) = [W24h]
           \<and> length (volumes snap) = 1"
proof -
  obtain vs s1 where vs: "getVolumes env [W24h] s = (Inr vs, s1)" "map window vs = [W24h]"
    using getVolumes_returns [of env "[W24h]" s] by auto
  obtain rs s2 where rs: "getRates env (routes params) (notionals params) s1 = (Inr rs, s2)"
    using getRates_returns [of env "routes params" "notionals params" s1] by auto
  obtain ls s3 where ls: "getLiquidityDepth env (routes params) s2 = (Inr ls, s3)"
    using getLiquidityDepth_returns [of env "routes params" s2] by auto
  obtain a s4 where a: "getListedAssets env s3 = (Inr a, s4)"
    using getListedAssets_returns [of env s3] by auto
  have r1: "retryOperation (random env) (getVolumes env [W24h]) s = (Inr vs, [], s1)"
    using vs(1) by (rule retryOperation_success)
  have r2: "retryOperation (random env) (getRates env (routes params) (notionals params)) s1
              = (Inr rs, [], s2)"
    using rs by (rule retryOperation_success)
  have r3: "retryOperation (random env) (getLiquidityDepth env (routes params)) s2
              = (Inr ls, [], s3)"
    using ls by (rule retryOperation_success)
  have r4: "retryOperation (random env) (getListedAssets env) s3 = (Inr a, [], s4)"
    using a by (rule retryOperation_success)
  have "fst (getSnapshot env params s)
          = Inr \<lparr>volumes = vs, rates = rs, liquidity = ls, listedAssets = a\<rparr>"
    using assms
    by (simp add: getSnapshot_def getVolumesWithRetry_def getRatesWithRetry_def
        getLiquidityDepthWithRetry_def getListedAssetsWithRetry_def r1 r2 r3 r4)
  moreover have "length vs = 1" using vs(2) by (metis length_map length_Cons list.size(3) One_nat_def)
  ultimately show ?thesis using vs(2) by simp
qed

theorem getSnapshot_default_window_witness:
  "\<exists>snap. fst (getSnapshot downEnv defaultParams (newService 0)) = Inr snap
      \<and> map window (volumes snap) = [W24h]
      \<and> length (volumes snap) = 1"
proof -
  have "includeWindows defaultParams = None" by (simp add: defaultParams_def)
  then show ?thesis by (rule getSnapshot_default_window)
qed

subsection \<open>The snapshot when every upstream call fails\<close>

lemma down_fetch:
  "fetchWithTimeout downEnv request s
     = (Inl (AxelarAPIError 0 True), countError (s\<lparr>upstream := upstream s + 10\<rparr>))"
  by (simp add: fetchWithTimeout_def downEnv_def Let_def)

lemma down_volume:
  "getVolume downEnv w s
     = (\<lparr>window = w, volumeUsd = getEstimatedVolume w, measuredAt = upstream s + 10\<rparr>,
        countError (s\<lparr>upstream := upstream s + 10\<rparr>))"
  by (simp add: getVolume_def Let_def eval_nat_numeral down_fetch)
     (simp add: downEnv_def countError_def)

lemma down_quote:
  "getAxelarQuote downEnv src dst a s
     = (Inr (createFallbackRate src dst a (upstream s + 10)),
        countError (s\<lparr>upstream := upstream s + 10\<rparr>))"
  by (simp add: getAxelarQuote_def down_fetch) (simp add: downEnv_def countError_def)

lemma down_slippage:
  "slippageOf (effectiveRate (createFallbackRate src dst a t))
              (effectiveRate (createFallbackRate src dst b t')) = Some 0"
  by (simp add: slippageOf_def createFallbackRate_def Let_def jsDivide_def)

lemma down_liquidity:
  "fst (getLiquidityOfRoute downEnv r s)
     = \<lparr>route = r,
        thresholds = [\<lparr>maxAmountIn = 1000000 * 10 ^ decimals (source r), slippageBps = 50\<rparr>,
                      \<lparr>maxAmountIn = 1000000 * 10 ^ decimals (source r), slippageBps = 100\<rparr>],
        depth_measuredAt = upstream s + 40\<rparr>"
  by (simp add: getLiquidityOfRoute_def Let_def down_quote down_slippage withinBps_def)
     (simp add: downEnv_def countError_def)

lemma down_liquidity_state:
  "snd (getLiquidityOfRoute downEnv r s)
     = s\<lparr>metrics := (metrics s)\<lparr>errors := errors (metrics s) + 4\<rparr>, upstream := upstream s + 40\<rparr>"
  by (simp add: getLiquidityOfRoute_def Let_def down_quote down_slippage withinBps_def)
     (simp add: downEnv_def countError_def)

text \<open>
  Claim C1 expects, when every upstream call fails, the heuristic volume estimates, the
  fallback rates, the fallback asset list, and one fallback liquidity entry per route.
  In the scenario of the specification (one route, two notionals, the windows 24h and 7d)
  with every request failing in transport, \<^verbatim>\<open>getSnapshot\<close> returns without an error, with
  the estimates, the fallback rates and the fallback assets; but the liquidity entry holds
  \<open>1000000 * 10 ^ 6\<close> for both thresholds, computed from the fallback quotes, and not the
  fallback thresholds \<open>800000 * 10 ^ 6\<close> and \<open>600000 * 10 ^ 6\<close> of the \<^verbatim>\<open>catch\<close> block.
\<close>

theorem getSnapshot_outage:
  "fst (getSnapshot downEnv outageParams (newService 0))
     = Inr \<lparr>volumes =
              [\<lparr>window = W24h, volumeUsd = 8000000, measuredAt = 10\<rparr>,
               \<lparr>window = W7d, volumeUsd = 60000000, measuredAt = 20\<rparr>],
            rates =
              [\<lparr>rate_source = ethUsdc, rate_destination = polygonUsdc, amountIn = 1000000,
                amountOut = 999000, effectiveRate = Some 0.999, totalFeesUsd = 5.001,
                quotedAt = 30\<rparr>,
               \<lparr>rate_source = ethUsdc, rate_destination = polygonUsdc, amountIn = 1000000000,
                amountOut = 999000000, effectiveRate = Some 0.999, totalFeesUsd = 6,
                quotedAt = 40\<rparr>],
            liquidity =
              [\<lparr>route = \<lparr>source = ethUsdc, destination = polygonUsdc\<rparr>,
                thresholds = [\<lparr>maxAmountIn = 1000000000000, slippageBps = 50\<rparr>,
                              \<lparr>maxAmountIn = 1000000000000, slippageBps = 100\<rparr>],
                depth_measuredAt = 80\<rparr>],
            listedAssets = \<lparr>assets = getFallbackAssets, assets_measuredAt = 90\<rparr>\<rparr>
   \<and> thresholds (fallbackLiquidity \<lparr>source = ethUsdc, destination = polygonUsdc\<rparr> 80)
       = [\<lparr>maxAmountIn = 800000000000, slippageBps = 50\<rparr>,
          \<lparr>maxAmountIn = 600000000000, slippageBps = 100\<rparr>]"
proof -
  let ?r = "\<lparr>source = ethUsdc, destination = polygonUsdc\<rparr>"
  let ?s0 = "newService (0::int)"
  let ?s2 = "?s0\<lparr>metrics := (metrics ?s0)\<lparr>errors := 2\<rparr>, upstream := 20\<rparr>"
  let ?s4 = "?s0\<lparr>metrics := (metrics ?s0)\<lparr>errors := 4\<rparr>, upstream := 40\<rparr>"
  let ?s8 = "?s0\<lparr>metrics := (metrics ?s0)\<lparr>errors := 8\<rparr>, upstream := 80\<rparr>"
  have v: "getVolumes downEnv [W24h, W7d] ?s0
      = (Inr [\<lparr>window = W24h, volumeUsd = 8000000, measuredAt = 10\<rparr>,
               \<lparr>window = W7d, volumeUsd = 60000000, measuredAt = 20\<rparr>], ?s2)"
    by (simp add: down_volume getEstimatedVolume_def countError_def newService_def)
  have r: "getRates downEnv [?r] [1000000, 1000000000] ?s2
      = (Inr [createFallbackRate ethUsdc polygonUsdc 1000000 30,
              createFallbackRate ethUsdc polygonUsdc 1000000000 40], ?s4)"
    by (simp add: down_quote countError_def newService_def)
  have l: "getLiquidityDepth downEnv [?r] ?s4
      = (Inr [\<lparr>route = ?r,
                thresholds = [\<lparr>maxAmountIn = 1000000000000, slippageBps = 50\<rparr>,
                              \<lparr>maxAmountIn = 1000000000000, slippageBps = 100\<rparr>],
                depth_measuredAt = 80\<rparr>], ?s8)"
    using down_liquidity [of ?r ?s4] down_liquidity_state [of ?r ?s4]
    by (simp add: prod_eq_iff ethUsdc_def newService_def split: prod.splits)
  have a: "fst (getListedAssets downEnv ?s8)
      = Inr \<lparr>assets = getFallbackAssets, assets_measuredAt = 90\<rparr>"
    by (simp add: getListedAssets_def TTLCache_get_def newService_def newTTLCache_def
        down_fetch countError_def fallbackListedAssets_def)
       (simp add: downEnv_def)
  obtain s9 where a': "getListedAssets downEnv ?s8
      = (Inr \<lparr>assets = getFallbackAssets, assets_measuredAt = 90\<rparr>, s9)"
    using a by (cases "getListedAssets downEnv ?s8") simp
  have rates: "createFallbackRate ethUsdc polygonUsdc 1000000 30
      = \<lparr>rate_source = ethUsdc, rate_destination = polygonUsdc, amountIn = 1000000,
         amountOut = 999000, effectiveRate = Some 0.999, totalFeesUsd = 5.001, quotedAt = 30\<rparr>"
    "createFallbackRate ethUsdc polygonUsdc 1000000000 40
      = \<lparr>rate_source = ethUsdc, rate_destination = polygonUsdc, amountIn = 1000000000,
         amountOut = 999000000, effectiveRate = Some 0.999, totalFeesUsd = 6, quotedAt = 40\<rparr>"
    by (simp_all add: createFallbackRate_def ethUsdc_def)
  have snap: "fst (getSnapshot downEnv outageParams ?s0)
      = Inr \<lparr>volumes = [\<lparr>window = W24h, volumeUsd = 8000000, measuredAt = 10\<rparr>,
                         \<lparr>window = W7d, volumeUsd = 60000000, measuredAt = 20\<rparr>],
             rates = [createFallbackRate ethUsdc polygonUsdc 1000000 30,
                      createFallbackRate ethUsdc polygonUsdc 1000000000 40],
             liquidity = [\<lparr>route = ?r,
                thresholds = [\<lparr>maxAmountIn = 1000000000000, slippageBps = 50\<rparr>,
                              \<lparr>maxAmountIn = 1000000000000, slippageBps = 100\<rparr>],
                depth_measuredAt = 80\<rparr>],
             listedAssets = \<lparr>assets = getFallbackAssets, assets_measuredAt = 90\<rparr>\<rparr>"
    by (simp add: getSnapshot_def outageParams_def getVolumesWithRetry_def getRatesWithRetry_def
        getLiquidityDepthWithRetry_def getListedAssetsWithRetry_def
        retryOperation_success [of "getVolumes downEnv [W24h, W7d]", OF v]
        retryOperation_success [of "getRates downEnv [?r] [1000000, 1000000000]", OF r]
        retryOperation_success [of "getLiquidityDepth downEnv [?r]", OF l]
        retryOperation_success [of "getListedAssets downEnv", OF a'])
  have fb: "thresholds (fallbackLiquidity ?r 80)
       = [\<lparr>maxAmountIn = 800000000000, slippageBps = 50\<rparr>,
          \<lparr>maxAmountIn = 600000000000, slippageBps = 100\<rparr>]"
    by (simp add: fallbackLiquidity_def ethUsdc_def)
  show ?thesis unfolding snap rates using fb by simp
qed

section \<open>Further properties of liquidity and outages\<close>

subsection \<open>The liquidity fallback\<close>

lemma getAxelarQuote_returns:
  "\<exists>rate. fst (getAxelarQuote env src dst a s) = Inr rate"
  by (simp add: getAxelarQuote_def Let_def split: prod.splits sum.splits)

lemma probeLadder_found:
  "fst (fst (probeLadder env r b amounts found s)) \<in> insert (fst found) (set amounts)
   \<and> snd (fst (probeLadder env r b amounts found s)) \<in> insert (snd found) (set amounts)"
proof (induction amounts arbitrary: found s)
  case Nil
  show ?case by simp
next
  case (Cons amount amounts)
  obtain res s1 where q: "getAxelarQuote env (source r) (destination r) (real_of_int amount) s
      = (res, s1)"
    by (cases "getAxelarQuote env (source r) (destination r) (real_of_int amount) s")
  show ?case
  proof (cases res)
    case (Inl e)
    then show ?thesis by (simp add: q)
  next
    case (Inr quote)
    let ?next = "(if withinBps (slippageOf (effectiveRate quote) b) 50 then amount else fst found,
                  if withinBps (slippageOf (effectiveRate quote) b) 100 then amount else snd found)"
    from Cons.IH [of ?next s1] show ?thesis
      by (auto simp: q Inr Let_def)
  qed
qed

text \<open>
  \<^verbatim>\<open>getAxelarQuote\<close> returns a rate for every upstream behaviour and every state, so the
  \<^verbatim>\<open>catch\<close> blocks of \<^verbatim>\<open>getLiquidityDepth\<close> never run: the entry of a route never
  carries the fallback thresholds (its 50 bps threshold is one of the four probed amounts,
  never \<open>800000 * 10 ^ decimals\<close>).
\<close>

theorem getLiquidityOfRoute_never_fallback:
  "(\<exists>rate. fst (getAxelarQuote env src dst a s) = Inr rate)
   \<and> map maxAmountIn (thresholds (fst (getLiquidityOfRoute env r s')))
       \<noteq> map maxAmountIn (thresholds (fallbackLiquidity r t))"
proof -
  let ?d = "decimals (source r)"
  let ?u = "(10::int) ^ ?d"
  have u: "0 < ?u" by simp
  obtain res s1 where q:
    "getAxelarQuote env (source r) (destination r) (real_of_int (50000 * ?u)) s' = (res, s1)"
    by (cases "getAxelarQuote env (source r) (destination r) (real_of_int (50000 * ?u)) s'")
  obtain baseline where b: "res = Inr baseline"
    using getAxelarQuote_returns [of env "source r" "destination r" "real_of_int (50000 * ?u)" s'] q
    by auto
  obtain found s2 where p:
    "probeLadder env r (effectiveRate baseline) [100000 * ?u, 500000 * ?u, 1000000 * ?u]
       (50000 * ?u, 50000 * ?u) s1 = (found, s2)"
    by (cases "probeLadder env r (effectiveRate baseline)
                 [100000 * ?u, 500000 * ?u, 1000000 * ?u] (50000 * ?u, 50000 * ?u) s1")
  have "fst (fst (probeLadder env r (effectiveRate baseline)
             [100000 * ?u, 500000 * ?u, 1000000 * ?u] (50000 * ?u, 50000 * ?u) s1))
          \<in> insert (fst (50000 * ?u, 50000 * ?u)) (set [100000 * ?u, 500000 * ?u, 1000000 * ?u])"
    using probeLadder_found by (rule conjunct1)
  then have "fst found \<in> {50000 * ?u, 100000 * ?u, 500000 * ?u, 1000000 * ?u}"
    unfolding p by auto
  then have "fst found \<noteq> 800000 * ?u" using u by auto
  moreover have "map maxAmountIn (thresholds (fst (getLiquidityOfRoute env r s')))
      = [fst found, snd found]"
    using q b p by (simp add: getLiquidityOfRoute_def Let_def del: probeLadder.simps)
  ultimately show ?thesis
    using getAxelarQuote_returns [of env src dst a s]
    by (simp add: fallbackLiquidity_def)
qed

theorem getLiquidityOfRoute_never_fallback_witness:
  "map maxAmountIn (thresholds (fst (getLiquidityOfRoute quotingEnv
       \<lparr>source = bscUsdc, destination = ethUsdc\<rparr> (newService 0))))
     \<noteq> [800000 * 10 ^ 18, 600000 * 10 ^ 18]"
  using getLiquidityOfRoute_never_fallback
    [of quotingEnv bscUsdc ethUsdc 1 "newService 0" "\<lparr>source = bscUsdc, destination = ethUsdc\<rparr>"
        "newService 0" 0]
  by (simp add: fallbackLiquidity_def bscUsdc_def)


subsection \<open>The snapshot during an outage\<close>

lemma fetchWithTimeout_down:
  assumes "upstreamDown env"
  shows "isl (fst (fetchWithTimeout env request s))"
proof -
  have "failedOutcome (fst (fetch env request (upstream s)))"
    using assms by (simp add: upstreamDown_def)
  then show ?thesis
    by (cases "fetch env request (upstream s)")
       (auto simp: fetchWithTimeout_def failedOutcome_def Let_def split: FetchOutcome.splits)
qed

lemma fetchWithTimeout_assetCache:
  "assetCache (snd (fetchWithTimeout env request s)) = assetCache s"
  by (cases "fetch env request (upstream s)")
     (auto simp: fetchWithTimeout_def Let_def countCall_def countError_def
           split: FetchOutcome.splits)

lemma fetchTransferPages_assetCache:
  "assetCache (snd (fetchTransferPages env fromTime now n cursor acc s)) = assetCache s"
proof (induction n arbitrary: cursor acc s)
  case 0
  show ?case by simp
next
  case (Suc n)
  obtain res s1 where f:
    "fetchWithTimeout env (TransfersRequest fromTime now (orString cursor None)) s = (res, s1)"
    by (cases "fetchWithTimeout env (TransfersRequest fromTime now (orString cursor None)) s")
  have s1: "assetCache s1 = assetCache s"
    using fetchWithTimeout_assetCache
      [of env "TransfersRequest fromTime now (orString cursor None)" s]
    by (simp add: f)
  show ?case
    using Suc.IH s1
    by (simp add: f Let_def split: sum.splits option.splits)
qed

lemma getVolume_down:
  assumes "upstreamDown env"
  shows "volumeUsd (fst (getVolume env w s)) = getEstimatedVolume w"
proof -
  let ?now = "dateNow env (upstream s)"
  let ?req = "TransfersRequest (?now - timeRanges w) ?now (orString None None)"
  obtain res s1 where f: "fetchWithTimeout env ?req s = (res, s1)"
    by (cases "fetchWithTimeout env ?req s")
  have "isl res" using fetchWithTimeout_down [OF assms, of ?req s] by (simp add: f)
  then obtain e where "res = Inl e" by (cases res) auto
  then show ?thesis
    by (simp add: getVolume_def Let_def eval_nat_numeral f)
qed

lemma getVolume_assetCache: "assetCache (snd (getVolume env w s)) = assetCache s"
  using fetchTransferPages_assetCache
    [of env "dateNow env (upstream s) - timeRanges w" "dateNow env (upstream s)" 5 None 0 s]
  by (auto simp: getVolume_def Let_def split: prod.splits sum.splits)

lemma getVolumes_down:
  assumes "upstreamDown env"
  shows "\<exists>vs s'. getVolumes env ws s = (Inr vs, s')
           \<and> map window vs = ws
           \<and> map volumeUsd vs = map getEstimatedVolume ws
           \<and> assetCache s' = assetCache s"
proof (induction ws arbitrary: s)
  case Nil
  show ?case by simp
next
  case (Cons w ws)
  obtain v s1 where v: "getVolume env w s = (v, s1)" by (cases "getVolume env w s")
  from Cons.IH [of s1] obtain vs s2 where
    vs: "getVolumes env ws s1 = (Inr vs, s2)" "map window vs = ws"
        "map volumeUsd vs = map getEstimatedVolume ws" "assetCache s2 = assetCache s1"
    by auto
  have "window v = w" using getVolume_window [of env w s] by (simp add: v)
  moreover have "volumeUsd v = getEstimatedVolume w"
    using getVolume_down [OF assms, of w s] by (simp add: v)
  moreover have "assetCache s1 = assetCache s"
    using getVolume_assetCache [of env w s] by (simp add: v)
  ultimately show ?case by (simp add: v vs)
qed

lemma getAxelarQuote_down:
  assumes "upstreamDown env"
  shows "\<exists>t s'. getAxelarQuote env src dst a s = (Inr (createFallbackRate src dst a t), s')
           \<and> assetCache s' = assetCache s"
proof -
  let ?req = "FeesRequest (chainId src) (chainId dst) (symbol src)"
  obtain res s1 where f: "fetchWithTimeout env ?req s = (res, s1)"
    by (cases "fetchWithTimeout env ?req s")
  have "isl res" using fetchWithTimeout_down [OF assms, of ?req s] by (simp add: f)
  then obtain e where e: "res = Inl e" by (cases res) auto
  have "assetCache s1 = assetCache s"
    using fetchWithTimeout_assetCache [of env ?req s] by (simp add: f)
  then show ?thesis by (auto simp: getAxelarQuote_def f e)
qed

lemma createFallbackRate_quotedAt:
  "(createFallbackRate src dst a t)\<lparr>quotedAt := 0\<rparr> = createFallbackRate src dst a 0"
  by (simp add: createFallbackRate_def Let_def)

lemma getRatesOfRoute_down:
  assumes "upstreamDown env"
  shows "\<exists>rs s'. getRatesOfRoute env r ns s = (rs, s')
           \<and> map (\<lambda>x. x\<lparr>quotedAt := 0\<rparr>) rs
               = map (\<lambda>a. createFallbackRate (source r) (destination r) a 0) ns
           \<and> assetCache s' = assetCache s"
proof (induction ns arbitrary: s)
  case Nil
  show ?case by simp
next
  case (Cons a ns)
  obtain t s1 where q:
    "getAxelarQuote env (source r) (destination r) a s
       = (Inr (createFallbackRate (source r) (destination r) a t), s1)"
    "assetCache s1 = assetCache s"
    using getAxelarQuote_down [OF assms, of "source r" "destination r" a s] by auto
  from Cons.IH [of s1] obtain rs s2 where
    rs: "getRatesOfRoute env r ns s1 = (rs, s2)"
        "map (\<lambda>x. x\<lparr>quotedAt := 0\<rparr>) rs
           = map (\<lambda>a. createFallbackRate (source r) (destination r) a 0) ns"
        "assetCache s2 = assetCache s1"
    by auto
  show ?case by (simp add: q rs createFallbackRate_quotedAt)
qed

lemma getRates_down:
  assumes "upstreamDown env"
  shows "\<exists>rs s'. getRates env rts ns s = (Inr rs, s')
           \<and> map (\<lambda>x. x\<lparr>quotedAt := 0\<rparr>) rs
               = concat (map (\<lambda>r. map (\<lambda>a. createFallbackRate (source r) (destination r) a 0) ns)
                           rts)
           \<and> assetCache s' = assetCache s"
proof (induction rts arbitrary: s)
  case Nil
  show ?case by simp
next
  case (Cons r rts)
  obtain here s1 where h: "getRatesOfRoute env r ns s = (here, s1)"
      "map (\<lambda>x. x\<lparr>quotedAt := 0\<rparr>) here
         = map (\<lambda>a. createFallbackRate (source r) (destination r) a 0) ns"
      "assetCache s1 = assetCache s"
    using getRatesOfRoute_down [OF assms, of r ns s] by auto
  from Cons.IH [of s1] obtain rest s2 where
    rest: "getRates env rts ns s1 = (Inr rest, s2)"
      "map (\<lambda>x. x\<lparr>quotedAt := 0\<rparr>) rest
         = concat (map (\<lambda>r. map (\<lambda>a. createFallbackRate (source r) (destination r) a 0) ns) rts)"
      "assetCache s2 = assetCache s1"
    by auto
  show ?case by (simp add: h rest)
qed

lemma probeLadder_down:
  assumes "upstreamDown env" and b: "b = effectiveRate (createFallbackRate src0 dst0 a0 t0)"
  shows "fst (probeLadder env r b amounts found s)
           = (last (fst found # amounts), last (snd found # amounts))
       \<and> assetCache (snd (probeLadder env r b amounts found s)) = assetCache s"
proof (induction amounts arbitrary: found s)
  case Nil
  show ?case by simp
next
  case (Cons amount amounts)
  obtain t s1 where q:
    "getAxelarQuote env (source r) (destination r) (real_of_int amount) s
       = (Inr (createFallbackRate (source r) (destination r) (real_of_int amount) t), s1)"
    "assetCache s1 = assetCache s"
    using getAxelarQuote_down [OF assms(1), of "source r" "destination r" "real_of_int amount" s]
    by auto
  let ?sl = "slippageOf (effectiveRate
               (createFallbackRate (source r) (destination r) (real_of_int amount) t)) b"
  have "?sl = Some 0"
    by (simp add: b slippageOf_def createFallbackRate_def Let_def jsDivide_def)
  then have w: "withinBps ?sl 50" "withinBps ?sl 100"
    by (simp_all add: withinBps_def)
  show ?case
    using Cons.IH [of "(amount, amount)" s1]
    by (simp add: q w Let_def)
qed

lemma getLiquidityOfRoute_down:
  assumes "upstreamDown env"
  shows "route (fst (getLiquidityOfRoute env r s)) = r
       \<and> thresholds (fst (getLiquidityOfRoute env r s))
           = [\<lparr>maxAmountIn = 1000000 * 10 ^ decimals (source r), slippageBps = 50\<rparr>,
              \<lparr>maxAmountIn = 1000000 * 10 ^ decimals (source r), slippageBps = 100\<rparr>]
       \<and> assetCache (snd (getLiquidityOfRoute env r s)) = assetCache s"
proof -
  let ?u = "(10::int) ^ decimals (source r)"
  obtain t s1 where q:
    "getAxelarQuote env (source r) (destination r) (real_of_int (50000 * ?u)) s
       = (Inr (createFallbackRate (source r) (destination r) (real_of_int (50000 * ?u)) t), s1)"
    "assetCache s1 = assetCache s"
    using getAxelarQuote_down
      [OF assms, of "source r" "destination r" "real_of_int (50000 * ?u)" s]
    by auto
  let ?b = "effectiveRate
      (createFallbackRate (source r) (destination r) (real_of_int (50000 * ?u)) t)"
  obtain found s2 where p:
    "probeLadder env r ?b [100000 * ?u, 500000 * ?u, 1000000 * ?u]
       (50000 * ?u, 50000 * ?u) s1 = (found, s2)"
    by (cases "probeLadder env r ?b [100000 * ?u, 500000 * ?u, 1000000 * ?u]
                 (50000 * ?u, 50000 * ?u) s1")
  have "fst (probeLadder env r ?b [100000 * ?u, 500000 * ?u, 1000000 * ?u]
               (50000 * ?u, 50000 * ?u) s1)
          = (last (fst (50000 * ?u, 50000 * ?u) # [100000 * ?u, 500000 * ?u, 1000000 * ?u]),
             last (snd (50000 * ?u, 50000 * ?u) # [100000 * ?u, 500000 * ?u, 1000000 * ?u]))
        \<and> assetCache (snd (probeLadder env r ?b [100000 * ?u, 500000 * ?u, 1000000 * ?u]
               (50000 * ?u, 50000 * ?u) s1)) = assetCache s1"
    using assms refl by (rule probeLadder_down)
  then have "found = (1000000 * ?u, 1000000 * ?u)" "assetCache s2 = assetCache s1"
    unfolding p by simp_all
  then show ?thesis
    using q p by (simp add: getLiquidityOfRoute_def Let_def del: probeLadder.simps)
qed

lemma getLiquidityDepth_down:
  assumes "upstreamDown env"
  shows "\<exists>ls s'. getLiquidityDepth env rts s = (Inr ls, s')
           \<and> map route ls = rts
           \<and> map thresholds ls
               = map (\<lambda>r. [\<lparr>maxAmountIn = 1000000 * 10 ^ decimals (source r), slippageBps = 50\<rparr>,
                            \<lparr>maxAmountIn = 1000000 * 10 ^ decimals (source r), slippageBps = 100\<rparr>])
                     rts
           \<and> assetCache s' = assetCache s"
proof (induction rts arbitrary: s)
  case Nil
  show ?case by simp
next
  case (Cons r rts)
  obtain entry s1 where h: "getLiquidityOfRoute env r s = (entry, s1)"
    by (cases "getLiquidityOfRoute env r s")
  have entry: "route entry = r"
      "thresholds entry
         = [\<lparr>maxAmountIn = 1000000 * 10 ^ decimals (source r), slippageBps = 50\<rparr>,
            \<lparr>maxAmountIn = 1000000 * 10 ^ decimals (source r), slippageBps = 100\<rparr>]"
      "assetCache s1 = assetCache s"
    using getLiquidityOfRoute_down [OF assms, of r s] by (simp_all add: h)
  from Cons.IH [of s1] obtain rest s2 where
    rest: "getLiquidityDepth env rts s1 = (Inr rest, s2)" "map route rest = rts"
      "map thresholds rest
         = map (\<lambda>r. [\<lparr>maxAmountIn = 1000000 * 10 ^ decimals (source r), slippageBps = 50\<rparr>,
                      \<lparr>maxAmountIn = 1000000 * 10 ^ decimals (source r), slippageBps = 100\<rparr>])
               rts"
      "assetCache s2 = assetCache s1"
    by auto
  show ?case by (simp add: h rest entry)
qed

lemma getListedAssets_down:
  assumes "upstreamDown env" and "store (assetCache s) ''all-assets'' = None"
  shows "\<exists>t s'. getListedAssets env s = (Inr (fallbackListedAssets t), s')"
proof -
  let ?s0 = "s\<lparr>assetCache := (assetCache s)\<lparr>misses := Suc (misses (assetCache s))\<rparr>\<rparr>"
  obtain res s1 where f: "fetchWithTimeout env ChainsRequest ?s0 = (res, s1)"
    by (cases "fetchWithTimeout env ChainsRequest ?s0")
  have "isl (fst (fetchWithTimeout env ChainsRequest ?s0))"
    using assms(1) by (rule fetchWithTimeout_down)
  then have "isl res" unfolding f by simp
  then obtain e where e: "res = Inl e" by (cases res) auto
  show ?thesis
    using assms(2) by (auto simp: getListedAssets_def TTLCache_get_def Let_def f e)
qed

text \<open>
  When the upstream services are down and no asset list is cached, \<^verbatim>\<open>getSnapshot\<close> returns
  a snapshot for every request: one volume entry per requested window, in order, with the
  heuristic estimate; the fallback rate of every route and notional, in input order; for
  every route, in order, a liquidity entry whose two thresholds are both
  \<open>1000000 * 10 ^ decimals\<close>; and the fallback asset list.
\<close>

theorem getSnapshot_upstream_down:
  assumes "upstreamDown env" and "store (assetCache s) ''all-assets'' = None"
  shows "\<exists>snap. fst (getSnapshot env params s) = Inr snap
           \<and> map window (volumes snap)
               = (case includeWindows params of Some ws \<Rightarrow> ws | None \<Rightarrow> [W24h])
           \<and> map volumeUsd (volumes snap)
               = map getEstimatedVolume
                   (case includeWindows params of Some ws \<Rightarrow> ws | None \<Rightarrow> [W24h])
           \<and> map (\<lambda>x. x\<lparr>quotedAt := 0\<rparr>) (rates snap)
               = concat (map (\<lambda>r. map (\<lambda>a. createFallbackRate (source r) (destination r) a 0)
                                      (notionals params))
                           (routes params))
           \<and> map route (liquidity snap) = routes params
           \<and> map thresholds (liquidity snap)
               = map (\<lambda>r. [\<lparr>maxAmountIn = 1000000 * 10 ^ decimals (source r), slippageBps = 50\<rparr>,
                            \<lparr>maxAmountIn = 1000000 * 10 ^ decimals (source r), slippageBps = 100\<rparr>])
                     (routes params)
           \<and> assets (listedAssets snap) = getFallbackAssets"
proof -
  let ?ws = "case includeWindows params of Some ws \<Rightarrow> ws | None \<Rightarrow> [W24h]"
  obtain vs s1 where vs: "getVolumes env ?ws s = (Inr vs, s1)" "map window vs = ?ws"
      "map volumeUsd vs = map getEstimatedVolume ?ws" "assetCache s1 = assetCache s"
    using getVolumes_down [OF assms(1), of ?ws s] by auto
  obtain rs s2 where rs: "getRates env (routes params) (notionals params) s1 = (Inr rs, s2)"
      "map (\<lambda>x. x\<lparr>quotedAt := 0\<rparr>) rs
         = concat (map (\<lambda>r. map (\<lambda>a. createFallbackRate (source r) (destination r) a 0)
                                (notionals params))
                     (routes params))"
      "assetCache s2 = assetCache s1"
    using getRates_down [OF assms(1), of "routes params" "notionals params" s1] by auto
  obtain ls s3 where ls: "getLiquidityDepth env (routes params) s2 = (Inr ls, s3)"
      "map route ls = routes params"
      "map thresholds ls
         = map (\<lambda>r. [\<lparr>maxAmountIn = 1000000 * 10 ^ decimals (source r), slippageBps = 50\<rparr>,
                      \<lparr>maxAmountIn = 1000000 * 10 ^ decimals (source r), slippageBps = 100\<rparr>])
               (routes params)"
      "assetCache s3 = assetCache s2"
    using getLiquidityDepth_down [OF assms(1), of "routes params" s2] by auto
  have "store (assetCache s3) ''all-assets'' = None"
    using assms(2) vs(4) rs(3) ls(4) by simp
  then obtain t s4 where a: "getListedAssets env s3 = (Inr (fallbackListedAssets t), s4)"
    using getListedAssets_down [OF assms(1), of s3] by auto
  have r1: "retryOperation (random env) (getVolumes env ?ws) s = (Inr vs, [], s1)"
    using vs(1) by (rule retryOperation_success)
  have r2: "retryOperation (random env) (getRates env (routes params) (notionals params)) s1
              = (Inr rs, [], s2)"
    using rs(1) by (rule retryOperation_success)
  have r3: "retryOperation (random env) (getLiquidityDepth env (routes params)) s2
              = (Inr ls, [], s3)"
    using ls(1) by (rule retryOperation_success)
  have r4: "retryOperation (random env) (getListedAssets env) s3
              = (Inr (fallbackListedAssets t), [], s4)"
    using a by (rule retryOperation_success)
  have "fst (getSnapshot env params s)
          = Inr \<lparr>volumes = vs, rates = rs, liquidity = ls,
                 listedAssets = fallbackListedAssets t\<rparr>"
    by (simp add: getSnapshot_def getVolumesWithRetry_def getRatesWithRetry_def
        getLiquidityDepthWithRetry_def getListedAssetsWithRetry_def r1 r2 r3 r4)
  then show ?thesis
    using vs(2,3) rs(2) ls(2,3) by (simp add: fallbackListedAssets_def)
qed

lemma downEnv_down: "upstreamDown downEnv"
  by (simp add: upstreamDown_def downEnv_def failedOutcome_def)

theorem getSnapshot_upstream_down_witness:
  "\<exists>snap. fst (getSnapshot downEnv outageParams (newService 0)) = Inr snap
      \<and> map window (volumes snap) = [W24h, W7d]
      \<and> map volumeUsd (volumes snap) = [8000000, 60000000]
      \<and> map thresholds (liquidity snap)
          = [[\<lparr>maxAmountIn = 1000000000000, slippageBps = 50\<rparr>,
              \<lparr>maxAmountIn = 1000000000000, slippageBps = 100\<rparr>]]
      \<and> assets (listedAssets snap) = getFallbackAssets"
proof -
  have "store (assetCache (newService (0::int))) ''all-assets'' = None"
    by (simp add: newService_def newTTLCache_def)
  from getSnapshot_upstream_down [OF downEnv_down this, of outageParams]
  show ?thesis
    by (auto simp: outageParams_def getEstimatedVolume_def ethUsdc_def)
qed

end
